theory Spec2Isabelle
  imports Complex_Main "HOL-Library.Word" "HOL-Library.Log_Nat" "HOL-Library.Monad_Syntax"
    "HOL-Library.Code_Target_Numeral"
begin

unbundle bit_operations_syntax

section \<open>JavaScript numbers\<close>

text \<open>
  A \<^verbatim>\<open>number\<close> is an IEEE-754 binary64 value: a rational that binary64 represents,
  an infinity, or NaN. The two zeros are one value here. The result of an arithmetic
  operation on finite operands is the exact result rounded to the nearest binary64 value,
  ties to even, as IEEE-754 prescribes.
\<close>

datatype number = Finite rat | PosInf | NegInf | NaN

text \<open>\<open>flog2 a\<close> is the exponent \<open>e\<close> with \<open>2\<^sup>e \<le> a < 2\<^sup>e\<^sup>+\<^sup>1\<close>, for \<open>a > 0\<close>.\<close>

definition flog2 :: "rat \<Rightarrow> int" where
  "flog2 a = (case quotient_of a of (p, q) \<Rightarrow>
     (let d = bitlen p - bitlen q in if 2 powi d \<le> a then d else d - 1))"

definition round_half_even :: "rat \<Rightarrow> int" where
  "round_half_even x =
     (let n = \<lfloor>x\<rfloor>; f = x - of_int n
      in if f < 1/2 then n else if 1/2 < f then n + 1 else if even n then n else n + 1)"

text \<open>
  Rounding to binary64: 53 significant bits, the least exponent of a unit in the last
  place is \<open>-1074\<close> (subnormals), and a rounded magnitude of \<open>2\<^sup>1\<^sup>0\<^sup>2\<^sup>4\<close> or more overflows
  to an infinity.
\<close>

definition round_double :: "rat \<Rightarrow> number" where
  "round_double q =
     (if q = 0 then Finite 0
      else let a = \<bar>q\<bar>;
               x = max (flog2 a - 52) (- 1074);
               m = round_half_even (a / 2 powi x);
               r = of_int m * 2 powi x
           in if 2 powi 1024 \<le> r then (if 0 < q then PosInf else NegInf)
              else Finite (sgn q * r))"

fun is_neg :: "number \<Rightarrow> bool" where
  "is_neg (Finite a) = (a < 0)"
| "is_neg NegInf = True"
| "is_neg PosInf = False"
| "is_neg NaN = False"

definition inf_signed :: "bool \<Rightarrow> number" where
  "inf_signed neg = (if neg then NegInf else PosInf)"

text \<open>The operator \<^verbatim>\<open>*\<close>.\<close>

fun num_mul :: "number \<Rightarrow> number \<Rightarrow> number" where
  "num_mul NaN y = NaN"
| "num_mul x NaN = NaN"
| "num_mul (Finite a) (Finite b) = round_double (a * b)"
| "num_mul x y =
     (if x = Finite 0 \<or> y = Finite 0 then NaN else inf_signed (is_neg x \<noteq> is_neg y))"

text \<open>
  The operator \<^verbatim>\<open>/\<close>. A zero divisor is the positive zero: the divisors of the
  repository are integers read from the file and the results of \<^verbatim>\<open>Math.pow\<close>.
\<close>

fun num_div :: "number \<Rightarrow> number \<Rightarrow> number" where
  "num_div NaN y = NaN"
| "num_div x NaN = NaN"
| "num_div (Finite a) (Finite b) =
     (if b = 0 then (if a = 0 then NaN else inf_signed (a < 0)) else round_double (a / b))"
| "num_div (Finite a) y = Finite 0"
| "num_div x (Finite b) = inf_signed (is_neg x \<noteq> (b < 0))"
| "num_div x y = NaN"

text \<open>The operator \<^verbatim>\<open>+\<close> on numbers.\<close>

fun num_add :: "number \<Rightarrow> number \<Rightarrow> number" where
  "num_add NaN y = NaN"
| "num_add x NaN = NaN"
| "num_add (Finite a) (Finite b) = round_double (a + b)"
| "num_add (Finite a) y = y"
| "num_add x (Finite b) = x"
| "num_add x y = (if x = y then x else NaN)"

text \<open>
  \<^verbatim>\<open>Math.pow\<close>. ECMAScript leaves its precision to the implementation, and the source
  calls it with two bases.

  With base 2 (in \<^verbatim>\<open>readFloat16\<close>, exponents from -14 to 15) the power is itself a
  binary64 value and the engine returns it: \<open>Math_pow_2 e\<close> is \<^verbatim>\<open>Math.pow(2, e)\<close>.

  With base 10 (in the getter \<^verbatim>\<open>data\<close>) the power is not a binary64 value for a negative
  exponent, and the engine's result need not be the binary64 value nearest to it: an
  engine may return a neighbour of that value. So \<^verbatim>\<open>Math.pow(10, x)\<close> is a parameter of the
  model. The functions that reach it take the engine's function as their first argument
  \<open>pow10\<close>: \<open>pow10 x\<close> is what \<^verbatim>\<open>Math.pow(10, x)\<close> returns.
\<close>

definition Math_pow_2 :: "int \<Rightarrow> number" where
  "Math_pow_2 e = round_double (2 powi e)"

text \<open>An integer below \<open>2\<^sup>5\<^sup>3\<close> in magnitude is a number as it is.\<close>

definition num_of_int :: "int \<Rightarrow> number" where
  "num_of_int i = Finite (of_int i)"

definition num_of_nat :: "nat \<Rightarrow> number" where
  "num_of_nat n = Finite (of_nat n)"

text \<open>
  The value of an IEEE-754 bit pattern with \<open>ebits\<close> exponent bits and \<open>fbits\<close>
  fraction bits: what \<^verbatim>\<open>readFloatLE\<close> (8 and 23) and \<^verbatim>\<open>readDoubleLE\<close> (11 and 52) return
  for the pattern they read.
\<close>

definition ieee_value :: "nat \<Rightarrow> nat \<Rightarrow> nat \<Rightarrow> number" where
  "ieee_value ebits fbits pattern =
     (let neg = (pattern div 2 ^ (ebits + fbits)) mod 2 = 1;
          ex = (pattern div 2 ^ fbits) mod 2 ^ ebits;
          fr = pattern mod 2 ^ fbits;
          bias = 2 ^ (ebits - 1) - 1;
          s = (if neg then - 1 else 1)
      in if ex = 2 ^ ebits - 1 then (if fr \<noteq> 0 then NaN else inf_signed neg)
         else if ex = 0 then Finite (s * of_nat fr * 2 powi (1 - int bias - int fbits))
         else Finite (s * of_nat (2 ^ fbits + fr) * 2 powi (int ex - int bias - int fbits)))"

section \<open>Errors\<close>

text \<open>
  The reader throws in two ways. Node's \<^verbatim>\<open>Buffer.readUInt32LE\<close>, \<^verbatim>\<open>readUInt16LE\<close>,
  \<^verbatim>\<open>readInt16LE\<close>, \<^verbatim>\<open>readInt32LE\<close>, \<^verbatim>\<open>readFloatLE\<close> and \<^verbatim>\<open>readDoubleLE\<close> throw a
  \<^verbatim>\<open>RangeError\<close> when the bytes they are asked for do not all lie inside the buffer:
  that is \<open>OutOfBounds\<close>, carrying the offset of the attempted read.
  The repository's own \<^verbatim>\<open>throw new Error(...)\<close> statements are the other four
  constructors, one per message:
  \<^item> \<open>UnknownDataType name\<close>: \<^verbatim>\<open>Channel ${name} has unknown data type\<close>
  \<^item> \<open>IndexOutOfRange i\<close>: \<^verbatim>\<open>Channel index ${i} out of range\<close>
  \<^item> \<open>ChannelNotFound name\<close>: \<^verbatim>\<open>Channel '${name}' not found\<close>
  \<^item> \<open>AmbiguousChannelName name\<close>: \<^verbatim>\<open>Multiple channels with name '${name}' found\<close>
\<close>

datatype error =
    OutOfBounds nat
  | UnknownDataType string
  | IndexOutOfRange int
  | ChannelNotFound string
  | AmbiguousChannelName string

section \<open>BinaryReader (utils.ts)\<close>

type_synonym byte = "8 word"

text \<open>
  A \<^verbatim>\<open>Buffer\<close> is a list of bytes. The position is a natural number: every \<^verbatim>\<open>seek\<close> of
  the repository is given 0 or an unsigned field read from the file, and every
  \<^verbatim>\<open>skip\<close> and read moves it forward.
\<close>

record BinaryReader =
  buffer :: "byte list"
  position :: nat

text \<open>
  A method of the reader takes the reader and returns its result, or the error it threw,
  together with the reader as the call left it (an exception does not undo the moves of
  the position made before it).
\<close>

type_synonym 'a reading = "BinaryReader \<Rightarrow> (error + 'a) \<times> BinaryReader"

definition ret :: "'a \<Rightarrow> 'a reading" where
  "ret v = (\<lambda>r. (Inr v, r))"

definition bnd :: "'a reading \<Rightarrow> ('a \<Rightarrow> 'b reading) \<Rightarrow> 'b reading" where
  "bnd m f = (\<lambda>r. case m r of (Inl e, r') \<Rightarrow> (Inl e, r') | (Inr v, r') \<Rightarrow> f v r')"

definition seek :: "nat \<Rightarrow> unit reading" where
  "seek pos = (\<lambda>r. (Inr (), r\<lparr>position := pos\<rparr>))"

definition tell :: "nat reading" where
  "tell = (\<lambda>r. (Inr (position r), r))"

definition skip :: "nat \<Rightarrow> unit reading" where
  "skip bytes = (\<lambda>r. (Inr (), r\<lparr>position := position r + bytes\<rparr>))"

text \<open>
  \<^verbatim>\<open>buffer.readUIntNLE(offset)\<close> and its siblings: the value of \<open>width\<close> bytes at \<open>offset\<close>,
  least significant byte first, or a \<^verbatim>\<open>RangeError\<close> unless
  \<open>offset + width \<le> buffer.length\<close>.
\<close>

fun le_value :: "byte list \<Rightarrow> nat" where
  "le_value [] = 0"
| "le_value (b # bs) = unat b + 256 * le_value bs"

definition buffer_read :: "nat \<Rightarrow> byte list \<Rightarrow> nat \<Rightarrow> error + nat" where
  "buffer_read width buf offset =
     (if offset + width \<le> length buf
      then Inr (le_value (take width (drop offset buf)))
      else Inl (OutOfBounds offset))"

definition to_signed :: "nat \<Rightarrow> nat \<Rightarrow> int" where
  "to_signed bits u = (if u < 2 ^ (bits - 1) then int u else int u - 2 ^ bits)"

definition readUInt32LE :: "nat reading" where
  "readUInt32LE = (\<lambda>r.
     case buffer_read 4 (buffer r) (position r) of
       Inl e \<Rightarrow> (Inl e, r)
     | Inr v \<Rightarrow> (Inr v, r\<lparr>position := position r + 4\<rparr>))"

definition readUInt16LE :: "nat reading" where
  "readUInt16LE = (\<lambda>r.
     case buffer_read 2 (buffer r) (position r) of
       Inl e \<Rightarrow> (Inl e, r)
     | Inr v \<Rightarrow> (Inr v, r\<lparr>position := position r + 2\<rparr>))"

definition readInt16LE :: "int reading" where
  "readInt16LE = (\<lambda>r.
     case buffer_read 2 (buffer r) (position r) of
       Inl e \<Rightarrow> (Inl e, r)
     | Inr v \<Rightarrow> (Inr (to_signed 16 v), r\<lparr>position := position r + 2\<rparr>))"

definition readInt32LE :: "int reading" where
  "readInt32LE = (\<lambda>r.
     case buffer_read 4 (buffer r) (position r) of
       Inl e \<Rightarrow> (Inl e, r)
     | Inr v \<Rightarrow> (Inr (to_signed 32 v), r\<lparr>position := position r + 4\<rparr>))"

text \<open>
  \<^verbatim>\<open>buffer.slice(start, end)\<close> never throws: it clamps both ends to the buffer, so
  the slice is shorter than asked for, or empty, when the range leaves the buffer.
\<close>

definition slice :: "byte list \<Rightarrow> nat \<Rightarrow> nat \<Rightarrow> byte list" where
  "slice buf start end = take (end - start) (drop start buf)"

definition readBytes :: "nat \<Rightarrow> byte list reading" where
  "readBytes len = (\<lambda>r.
     (Inr (slice (buffer r) (position r) (position r + len)),
      r\<lparr>position := position r + len\<rparr>))"

text \<open>
  \<^verbatim>\<open>readFloatLE\<close> and \<^verbatim>\<open>readDoubleLE\<close> are called on the buffer inside
  \<^verbatim>\<open>readNumericArray\<close>, which then moves the position itself.
\<close>

definition readFloatLE :: "byte list \<Rightarrow> nat \<Rightarrow> error + number" where
  "readFloatLE buf offset = map_sum id (ieee_value 8 23) (buffer_read 4 buf offset)"

definition readDoubleLE :: "byte list \<Rightarrow> nat \<Rightarrow> error + number" where
  "readDoubleLE buf offset = map_sum id (ieee_value 11 52) (buffer_read 8 buf offset)"

text \<open>
  \<^verbatim>\<open>readFloat16\<close>: the masks and shifts of the source on the 16-bit value read, then
  the three cases with the arithmetic of numbers.
\<close>

definition readFloat16 :: "number reading" where
  "readFloat16 = bnd readUInt16LE (\<lambda>value.
     let sign = drop_bit 15 (value AND 0x8000);
         exponent = drop_bit 10 (value AND 0x7C00);
         fraction = value AND 0x03FF
     in if exponent = 0 then
          ret (num_mul (num_mul (num_of_int (if sign \<noteq> 0 then - 1 else 1)) (Math_pow_2 (- 14)))
                 (num_div (num_of_nat fraction) (Math_pow_2 10)))
        else if exponent = 0x1F then
          ret (if fraction \<noteq> 0 then NaN else (if sign \<noteq> 0 then NegInf else PosInf))
        else
          ret (num_mul
                 (num_mul (num_of_int (if sign \<noteq> 0 then - 1 else 1))
                    (Math_pow_2 (int exponent - 15)))
                 (num_add (num_of_int 1) (num_div (num_of_nat fraction) (Math_pow_2 10)))))"

datatype NumericType = int16 | int32 | float32 | float16 | gps | timestamp

text \<open>One turn of the \<^verbatim>\<open>switch\<close> in \<^verbatim>\<open>readNumericArray\<close>: the value pushed.\<close>

fun read_value :: "NumericType \<Rightarrow> number reading" where
  "read_value int16 = bnd readInt16LE (\<lambda>v. ret (num_of_int v))"
| "read_value int32 = bnd readInt32LE (\<lambda>v. ret (num_of_int v))"
| "read_value timestamp = bnd readInt32LE (\<lambda>v. ret (num_of_int v))"
| "read_value gps = (\<lambda>r.
     case readDoubleLE (buffer r) (position r) of
       Inl e \<Rightarrow> (Inl e, r)
     | Inr v \<Rightarrow> (Inr v, r\<lparr>position := position r + 8\<rparr>))"
| "read_value float32 = (\<lambda>r.
     case readFloatLE (buffer r) (position r) of
       Inl e \<Rightarrow> (Inl e, r)
     | Inr v \<Rightarrow> (Inr v, r\<lparr>position := position r + 4\<rparr>))"
| "read_value float16 = readFloat16"

text \<open>
  The \<^verbatim>\<open>for\<close> loop of \<^verbatim>\<open>readNumericArray\<close>; the first argument is the number of turns
  left, \<^verbatim>\<open>count - i\<close>.
\<close>

fun readNumericArray_loop :: "nat \<Rightarrow> NumericType \<Rightarrow> number list \<Rightarrow> number list reading" where
  "readNumericArray_loop 0 dtype result = ret result"
| "readNumericArray_loop (Suc n) dtype result =
     bnd (read_value dtype) (\<lambda>v. readNumericArray_loop n dtype (result @ [v]))"

definition readNumericArray :: "nat \<Rightarrow> nat \<Rightarrow> NumericType \<Rightarrow> number list reading" where
  "readNumericArray dataPtr count dtype =
     bnd (seek dataPtr) (\<lambda>_. readNumericArray_loop count dtype [])"

subsection \<open>decodeString\<close>

text \<open>
  \<^verbatim>\<open>indexOf\<close> is \<open>-1\<close> when the value does not occur. \<^verbatim>\<open>toString('ascii')\<close> clears the
  high bit of every byte. \<^verbatim>\<open>trim\<close> removes the white space and line terminators of
  JavaScript at both ends; below 128 these are the codes 9 to 13 and 32.
\<close>

fun indexOf :: "byte list \<Rightarrow> byte \<Rightarrow> int" where
  "indexOf [] v = - 1"
| "indexOf (b # bs) v =
     (if b = v then 0 else (let i = indexOf bs v in if i < 0 then - 1 else i + 1))"

definition toString_ascii :: "byte list \<Rightarrow> string" where
  "toString_ascii bs = map (\<lambda>b. char_of (unat b mod 128)) bs"

definition is_space :: "char \<Rightarrow> bool" where
  "is_space c = (let n = (of_char c :: nat) in (9 \<le> n \<and> n \<le> 13) \<or> n = 32)"

definition trim :: "string \<Rightarrow> string" where
  "trim s = rev (dropWhile is_space (rev (dropWhile is_space s)))"

definition decodeString :: "byte list \<Rightarrow> string" where
  "decodeString buf =
     (let nullIndex = indexOf buf 0;
          endIndex = (if nullIndex \<ge> 0 then nat nullIndex else length buf)
      in trim (toString_ascii (slice buf 0 endIndex)))"

section \<open>Header records (ldHead.ts)\<close>

record LdVehicle =
  id' :: string
  weight :: nat
  type' :: string
  comment :: string

definition LdVehicle_fromFile :: "LdVehicle reading" where
  "LdVehicle_fromFile =
     bnd (readBytes 64) (\<lambda>b_id.
     bnd (skip 128) (\<lambda>_.
     bnd readUInt32LE (\<lambda>weight.
     bnd (readBytes 32) (\<lambda>b_type.
     bnd (readBytes 32) (\<lambda>b_comment.
     ret \<lparr>id' = decodeString b_id, weight = weight, type' = decodeString b_type,
          comment = decodeString b_comment\<rparr>)))))"

record LdVenue =
  name :: string
  vehiclePtr :: nat
  vehicle :: "LdVehicle option"

definition LdVenue_fromFile :: "LdVenue reading" where
  "LdVenue_fromFile =
     bnd (readBytes 64) (\<lambda>b_name.
     bnd (skip 1034) (\<lambda>_.
     bnd readUInt16LE (\<lambda>vehiclePtr.
     bnd (if vehiclePtr > 0 then
            bnd tell (\<lambda>currentPos.
            bnd (seek vehiclePtr) (\<lambda>_.
            bnd LdVehicle_fromFile (\<lambda>v.
            bnd (seek currentPos) (\<lambda>_.
            ret (Some v)))))
          else ret None) (\<lambda>vehicle.
     ret \<lparr>name = decodeString b_name, vehiclePtr = vehiclePtr, vehicle = vehicle\<rparr>))))"

record LdEvent =
  name :: string
  session :: string
  comment :: string
  venuePtr :: nat
  venue :: "LdVenue option"

definition LdEvent_fromFile :: "LdEvent reading" where
  "LdEvent_fromFile =
     bnd (readBytes 64) (\<lambda>b_name.
     bnd (readBytes 64) (\<lambda>b_session.
     bnd (readBytes 1024) (\<lambda>b_comment.
     bnd readUInt16LE (\<lambda>venuePtr.
     bnd (if venuePtr > 0 then
            bnd tell (\<lambda>currentPos.
            bnd (seek venuePtr) (\<lambda>_.
            bnd LdVenue_fromFile (\<lambda>v.
            bnd (seek currentPos) (\<lambda>_.
            ret (Some v)))))
          else ret None) (\<lambda>venue.
     ret \<lparr>name = decodeString b_name, session = decodeString b_session,
          comment = decodeString b_comment, venuePtr = venuePtr, venue = venue\<rparr>)))))"

subsection \<open>The date and time of the header\<close>

text \<open>
  The two regular expressions of \<^verbatim>\<open>LdHead.fromFile\<close>, matched anywhere in the text
  \<^verbatim>\<open>`${dateStr} ${timeStr}`\<close>: two digits, a slash, two digits, a slash, four digits,
  white space, two digits, a colon, two digits and, for the first expression, a colon and
  two more digits. A \<^verbatim>\<open>Date\<close> is kept as the arguments of its constructor (a local
  time); \<open>DateNow\<close> is \<^verbatim>\<open>new Date()\<close>, the time of the call.
\<close>

datatype Date = Date int int int int int int | DateNow

definition is_digit :: "char \<Rightarrow> bool" where
  "is_digit c = (let n = (of_char c :: nat) in 48 \<le> n \<and> n \<le> 57)"

definition parseInt :: "string \<Rightarrow> int" where
  "parseInt ds = foldl (\<lambda>a c. 10 * a + (int (of_char c) - 48)) 0 ds"

definition digits :: "nat \<Rightarrow> string \<Rightarrow> (string \<times> string) option" where
  "digits n s =
     (if n \<le> length s \<and> list_all is_digit (take n s) then Some (take n s, drop n s) else None)"

definition expect :: "char \<Rightarrow> string \<Rightarrow> string option" where
  "expect c s = (case s of [] \<Rightarrow> None | x # t \<Rightarrow> if x = c then Some t else None)"

definition spaces :: "string \<Rightarrow> string option" where
  "spaces s = (case s of [] \<Rightarrow> None | x # t \<Rightarrow> if is_space x then Some (dropWhile is_space t) else None)"

definition match_here :: "bool \<Rightarrow> string \<Rightarrow> Date option" where
  "match_here seconds s = do {
     (day, s1) \<leftarrow> digits 2 s;
     s2 \<leftarrow> expect CHR ''/'' s1;
     (month, s3) \<leftarrow> digits 2 s2;
     s4 \<leftarrow> expect CHR ''/'' s3;
     (year, s5) \<leftarrow> digits 4 s4;
     s6 \<leftarrow> spaces s5;
     (hour, s7) \<leftarrow> digits 2 s6;
     s8 \<leftarrow> expect CHR '':'' s7;
     (minute, s9) \<leftarrow> digits 2 s8;
     if seconds then do {
       s10 \<leftarrow> expect CHR '':'' s9;
       (second, s11) \<leftarrow> digits 2 s10;
       Some (Date (parseInt year) (parseInt month - 1) (parseInt day)
               (parseInt hour) (parseInt minute) (parseInt second))
     } else
       Some (Date (parseInt year) (parseInt month - 1) (parseInt day)
               (parseInt hour) (parseInt minute) 0)
   }"

fun match :: "bool \<Rightarrow> string \<Rightarrow> Date option" where
  "match seconds [] = match_here seconds []"
| "match seconds (c # s) =
     (case match_here seconds (c # s) of Some d \<Rightarrow> Some d | None \<Rightarrow> match seconds s)"

definition parse_datetime :: "string \<Rightarrow> string \<Rightarrow> Date" where
  "parse_datetime dateStr timeStr =
     (let text = dateStr @ '' '' @ timeStr
      in case match True text of
           Some d \<Rightarrow> d
         | None \<Rightarrow> (case match False text of Some d \<Rightarrow> d | None \<Rightarrow> DateNow))"

subsection \<open>LdHead\<close>

record LdHead =
  metaPtr :: nat
  dataPtr :: nat
  eventPtr :: nat
  event :: "LdEvent option"
  driver :: string
  vehicleId :: string
  venue :: string
  datetime :: Date
  shortComment :: string

definition LdHead_fromFile :: "LdHead reading" where
  "LdHead_fromFile =
     bnd (seek 0) (\<lambda>_.
     bnd (skip 4) (\<lambda>_.
     bnd (skip 4) (\<lambda>_.
     bnd readUInt32LE (\<lambda>metaPtr.
     bnd readUInt32LE (\<lambda>dataPtr.
     bnd (skip 20) (\<lambda>_.
     bnd readUInt32LE (\<lambda>eventPtr.
     bnd (skip 24) (\<lambda>_.
     bnd (skip (2 + 2 + 2)) (\<lambda>_.
     bnd (skip 4) (\<lambda>_.
     bnd (skip 8) (\<lambda>_.
     bnd (skip 2) (\<lambda>_.
     bnd (skip 2) (\<lambda>_.
     bnd (skip 4) (\<lambda>_.
     bnd (skip 4) (\<lambda>_.
     bnd (readBytes 16) (\<lambda>b_date.
     bnd (skip 16) (\<lambda>_.
     bnd (readBytes 16) (\<lambda>b_time.
     bnd (skip 16) (\<lambda>_.
     bnd (readBytes 64) (\<lambda>b_driver.
     bnd (readBytes 64) (\<lambda>b_vehicleId.
     bnd (skip 64) (\<lambda>_.
     bnd (readBytes 64) (\<lambda>b_venue.
     bnd (skip 64) (\<lambda>_.
     bnd (skip 1024) (\<lambda>_.
     bnd (skip 4) (\<lambda>_.
     bnd (skip 66) (\<lambda>_.
     bnd (readBytes 64) (\<lambda>b_shortComment.
     bnd (skip 126) (\<lambda>_.
     bnd (if eventPtr > 0 then
            bnd tell (\<lambda>currentPos.
            bnd (seek eventPtr) (\<lambda>_.
            bnd LdEvent_fromFile (\<lambda>e.
            bnd (seek currentPos) (\<lambda>_.
            ret (Some e)))))
          else ret None) (\<lambda>event.
     ret \<lparr>metaPtr = metaPtr, dataPtr = dataPtr, eventPtr = eventPtr, event = event,
          driver = decodeString b_driver, vehicleId = decodeString b_vehicleId,
          venue = decodeString b_venue,
          datetime = parse_datetime (decodeString b_date) (decodeString b_time),
          shortComment = decodeString b_shortComment\<rparr>))))))))))))))))))))))))))))))"

section \<open>Channels (ldChan.ts)\<close>

text \<open>
  \<^verbatim>\<open>DataType\<close> is one of the four encodings or \<^verbatim>\<open>null\<close>. The field \<open>cached_data\<close> is the
  private \<^verbatim>\<open>_data\<close>. The \<^verbatim>\<open>reader\<close> of a channel is the one reader of the document, shared
  by all its channels: it is the state that the methods are run on.
\<close>

type_synonym DataType = "NumericType option"

record LdChan =
  cached_data :: "number list option"
  metaPtr :: nat
  prevMetaPtr :: nat
  nextMetaPtr :: nat
  dataPtr :: nat
  dataLen :: nat
  dtype :: DataType
  freq :: nat
  shift :: int
  mul :: int
  scale :: int
  dec :: int
  name :: string
  shortName :: string
  unit :: string

definition LdChan_fromFile :: "nat \<Rightarrow> LdChan reading" where
  "LdChan_fromFile = (\<lambda>metaPtr.
     bnd (seek metaPtr) (\<lambda>_.
     bnd readUInt32LE (\<lambda>prevMetaPtr.
     bnd readUInt32LE (\<lambda>nextMetaPtr.
     bnd readUInt32LE (\<lambda>dataPtr.
     bnd readUInt32LE (\<lambda>dataLen.
     bnd (skip 2) (\<lambda>_.
     bnd readUInt16LE (\<lambda>dtypeA.
     bnd readUInt16LE (\<lambda>dtypeRaw.
     bnd readUInt16LE (\<lambda>freq.
     bnd readInt16LE (\<lambda>shift.
     bnd readInt16LE (\<lambda>mul.
     bnd readInt16LE (\<lambda>scale.
     bnd readInt16LE (\<lambda>dec.
     bnd (readBytes 32) (\<lambda>b_name.
     bnd (readBytes 8) (\<lambda>b_shortName.
     bnd (readBytes 12) (\<lambda>b_unit.
     bnd (skip 40) (\<lambda>_.
     let dtype =
       (if dtypeA = 0x07 then
          (if dtypeRaw = 2 then Some float16
           else if dtypeRaw = 4 then Some float32
           else None)
        else if dtypeA \<in> set [0, 0x03, 0x05] then
          (if dtypeRaw = 2 then Some int16
           else if dtypeRaw = 4 then Some int32
           else None)
        else None)
     in ret \<lparr>cached_data = None, metaPtr = metaPtr, prevMetaPtr = prevMetaPtr,
             nextMetaPtr = nextMetaPtr, dataPtr = dataPtr, dataLen = dataLen, dtype = dtype,
             freq = freq, shift = shift, mul = mul, scale = scale, dec = dec,
             name = decodeString b_name, shortName = decodeString b_shortName,
             unit = decodeString b_unit\<rparr>))))))))))))))))))"

text \<open>
  The scaling of one raw value in the getter \<^verbatim>\<open>data\<close>:
  \<^verbatim>\<open>(value / this.scale * Math.pow(10, -this.dec) + this.shift) * this.mul\<close>.
\<close>

definition scaling :: "(int \<Rightarrow> number) \<Rightarrow> LdChan \<Rightarrow> number \<Rightarrow> number" where
  "scaling pow10 ch value =
     num_mul
       (num_add
          (num_mul (num_div value (num_of_int (scale ch))) (pow10 (- dec ch)))
          (num_of_int (shift ch)))
       (num_of_int (mul ch))"

text \<open>
  The getter \<^verbatim>\<open>data\<close> of a channel, run on the channel and the shared reader: it returns
  the samples or the error thrown, with the channel and the reader as it left them.
\<close>

definition LdChan_data ::
  "(int \<Rightarrow> number) \<Rightarrow> LdChan \<Rightarrow> BinaryReader \<Rightarrow>
     (error + number list) \<times> LdChan \<times> BinaryReader" where
  "LdChan_data pow10 ch r =
     (case dtype ch of
        None \<Rightarrow> (Inl (UnknownDataType (name ch)), ch, r)
      | Some t \<Rightarrow>
          (case cached_data ch of
             None \<Rightarrow>
               (case readNumericArray (dataPtr ch) (dataLen ch) t r of
                  (Inl e, r') \<Rightarrow> (Inl e, ch, r')
                | (Inr rawData, r') \<Rightarrow>
                    (let d = map (scaling pow10 ch) rawData
                     in (Inr d, ch\<lparr>cached_data := Some d\<rparr>, r')))
           | Some d \<Rightarrow> (Inr d, ch, r)))"

text \<open>
  \<^verbatim>\<open>readChannels\<close>: the \<^verbatim>\<open>while\<close> loop has no bound, so the model is a partial function,
  \<open>None\<close> when the loop does not end.
\<close>

partial_function (option) readChannels_loop ::
  "LdChan list \<Rightarrow> nat \<Rightarrow> BinaryReader \<Rightarrow> ((error + LdChan list) \<times> BinaryReader) option" where
  "readChannels_loop channels currentPtr reader =
     (if currentPtr \<noteq> 0 then
        (case LdChan_fromFile currentPtr reader of
           (Inl e, reader') \<Rightarrow> Some (Inl e, reader')
         | (Inr chan, reader') \<Rightarrow>
             readChannels_loop (channels @ [chan]) (nextMetaPtr chan) reader')
      else Some (Inr channels, reader))"

declare readChannels_loop.simps [code]

definition readChannels ::
  "nat \<Rightarrow> BinaryReader \<Rightarrow> ((error + LdChan list) \<times> BinaryReader) option" where
  "readChannels = (\<lambda>metaPtr reader. readChannels_loop [] metaPtr reader)"

section \<open>The document (ldData.ts)\<close>

record LdData =
  head :: LdHead
  channels :: "LdChan list"

text \<open>
  \<^verbatim>\<open>LdData.fromFile\<close>, from the buffer that \<^verbatim>\<open>readFileBuffer\<close> returns.
\<close>

definition LdData_fromFile ::
  "byte list \<Rightarrow> ((error + LdData) \<times> BinaryReader) option" where
  "LdData_fromFile buf =
     (let reader = \<lparr>buffer = buf, position = 0\<rparr>
      in case LdHead_fromFile reader of
           (Inl e, reader') \<Rightarrow> Some (Inl e, reader')
         | (Inr h, reader') \<Rightarrow>
             (case readChannels (LdHead.metaPtr h) reader' of
                None \<Rightarrow> None
              | Some (Inl e, reader'') \<Rightarrow> Some (Inl e, reader'')
              | Some (Inr chs, reader'') \<Rightarrow> Some (Inr \<lparr>head = h, channels = chs\<rparr>, reader'')))"

text \<open>
  The argument of \<^verbatim>\<open>getChannel\<close> is a string or a number; a number that indexes the
  channels is an integer.
\<close>

datatype nameOrIndex = Name string | Index int

fun getChannel :: "LdData \<Rightarrow> nameOrIndex \<Rightarrow> error + LdChan" where
  "getChannel d (Index i) =
     (if i < 0 \<or> i \<ge> int (length (channels d)) then Inl (IndexOutOfRange i)
      else Inr (channels d ! nat i))"
| "getChannel d (Name n) =
     (let matchingChannels = filter (\<lambda>ch. name ch = n) (channels d)
      in if length matchingChannels = 0 then Inl (ChannelNotFound n)
         else if length matchingChannels > 1 then Inl (AmbiguousChannelName n)
         else Inr (matchingChannels ! 0))"

definition getChannelNames :: "LdData \<Rightarrow> string list" where
  "getChannelNames d = map name (channels d)"

definition channelCount :: "LdData \<Rightarrow> nat" where
  "channelCount d = length (channels d)"

text \<open>
  The object that \<^verbatim>\<open>toDataMap\<close> builds starts as \<^verbatim>\<open>{}\<close>: it has its own properties, from
  names to sample arrays, and a prototype. The assignment \<^verbatim>\<open>result[key] = value\<close> of an
  array adds or replaces the own property \<open>key\<close>, except for the key \<^verbatim>\<open>__proto__\<close>: that
  one runs the setter inherited from \<^verbatim>\<open>Object.prototype\<close>, which makes the array the
  prototype of the object and adds no property. \<open>prototype\<close> is \<open>None\<close> as long as the
  prototype is \<^verbatim>\<open>Object.prototype\<close>. The keys of the object are the names of its own
  properties.
\<close>

record DataRecord =
  own :: "string \<rightharpoonup> number list"
  prototype :: "number list option"

definition empty_object :: DataRecord where
  "empty_object = \<lparr>own = Map.empty, prototype = None\<rparr>"

definition assign :: "DataRecord \<Rightarrow> string \<Rightarrow> number list \<Rightarrow> DataRecord" where
  "assign result key value =
     (if key = ''__proto__'' then result\<lparr>prototype := Some value\<rparr>
      else result\<lparr>own := (own result)(key \<mapsto> value)\<rparr>)"

definition Object_keys :: "DataRecord \<Rightarrow> string set" where
  "Object_keys result = dom (own result)"

text \<open>
  \<^verbatim>\<open>toDataMap\<close>: the loop over the channels. Each turn runs the getter \<^verbatim>\<open>data\<close> of the
  channel, which may fill its cache and moves the shared reader, and assigns the samples
  to the channel's name. The loop returns the object or the error thrown, with the channels
  and the reader as it left them.
\<close>

fun toDataMap_loop ::
  "(int \<Rightarrow> number) \<Rightarrow> LdChan list \<Rightarrow> DataRecord \<Rightarrow> BinaryReader \<Rightarrow>
     (error + DataRecord) \<times> LdChan list \<times> BinaryReader" where
  "toDataMap_loop pow10 [] result r = (Inr result, [], r)"
| "toDataMap_loop pow10 (channel # rest) result r =
     (case LdChan_data pow10 channel r of
        (Inl e, channel', r') \<Rightarrow> (Inl e, channel' # rest, r')
      | (Inr d, channel', r') \<Rightarrow>
          (case toDataMap_loop pow10 rest (assign result (name channel) d) r' of
             (res, rest', r'') \<Rightarrow> (res, channel' # rest', r'')))"

definition toDataMap ::
  "(int \<Rightarrow> number) \<Rightarrow> LdData \<Rightarrow> BinaryReader \<Rightarrow>
     (error + DataRecord) \<times> LdData \<times> BinaryReader" where
  "toDataMap pow10 d r =
     (case toDataMap_loop pow10 (channels d) empty_object r of
        (res, chs, r') \<Rightarrow> (res, d\<lparr>channels := chs\<rparr>, r'))"

section \<open>Layout of the file, in the words of the format\<close>

text \<open>
  Apart from the two fragments of the source named as such, the definitions of this
  section are not from the source. They name what the statements below are about: the
  field of a record at an offset, the data types of the format, the value of a
  half-precision pattern, the raw value of a sample, the records of a chain, and the
  place where an assignment leaves its value.
\<close>

text \<open>
  The unsigned little-endian integer, the signed one and the text in the \<open>width\<close> bytes
  at offset \<open>off\<close> of a buffer (as many of them as the buffer has).
\<close>

definition field_u :: "nat \<Rightarrow> byte list \<Rightarrow> nat \<Rightarrow> nat" where
  "field_u width buf off = le_value (take width (drop off buf))"

definition field_s :: "nat \<Rightarrow> byte list \<Rightarrow> nat \<Rightarrow> int" where
  "field_s width buf off = to_signed (8 * width) (field_u width buf off)"

definition field_text :: "nat \<Rightarrow> byte list \<Rightarrow> nat \<Rightarrow> string" where
  "field_text width buf off = decodeString (take width (drop off buf))"

text \<open>
  Two fragments of the source on their own. The first is the \<^verbatim>\<open>if\<close> chain
  "Determine data type" of \<^verbatim>\<open>LdChan.fromFile\<close>, the second the block "Read event if present"
  of \<^verbatim>\<open>LdHead.fromFile\<close>.
\<close>

definition determine_dtype :: "nat \<Rightarrow> nat \<Rightarrow> DataType" where
  "determine_dtype dtypeA dtypeRaw =
       (if dtypeA = 0x07 then
          (if dtypeRaw = 2 then Some float16
           else if dtypeRaw = 4 then Some float32
           else None)
        else if dtypeA \<in> set [0, 0x03, 0x05] then
          (if dtypeRaw = 2 then Some int16
           else if dtypeRaw = 4 then Some int32
           else None)
        else None)"

definition read_event_if_present :: "nat \<Rightarrow> LdEvent option reading" where
  "read_event_if_present ptr =
     (if ptr > 0 then
            bnd tell (\<lambda>currentPos.
            bnd (seek ptr) (\<lambda>_.
            bnd LdEvent_fromFile (\<lambda>e.
            bnd (seek currentPos) (\<lambda>_.
            ret (Some e)))))
          else ret None)"

text \<open>
  The table of data types: the classes, the width, the resolved data type; any other
  combination is unknown.
\<close>

definition dtype_table :: "(nat list \<times> nat \<times> NumericType) list" where
  "dtype_table =
     [([0x07], 2, float16),
      ([0x07], 4, float32),
      ([0, 0x03, 0x05], 2, int16),
      ([0, 0x03, 0x05], 4, int32)]"

definition resolved_dtype_spec :: "nat \<Rightarrow> nat \<Rightarrow> DataType" where
  "resolved_dtype_spec dtypeClass dtypeWidth =
     map_option (\<lambda>(cs, w, t). t)
       (find (\<lambda>(cs, w, t). dtypeClass \<in> set cs \<and> w = dtypeWidth) dtype_table)"

text \<open>
  The value of a 16-bit pattern as a half-precision number: one sign bit, five exponent
  bits, ten fraction bits; the arithmetic is exact.
\<close>

definition half_float_spec :: "nat \<Rightarrow> number" where
  "half_float_spec pattern =
     (let negative = ((pattern div 2 ^ 15) mod 2 = 1);
          exponent = (pattern div 2 ^ 10) mod 2 ^ 5;
          fraction = pattern mod 2 ^ 10;
          sign = (if negative then - 1 else 1)
      in if exponent = 0 then Finite (sign * 2 powi (- 14) * (of_nat fraction / 1024))
         else if exponent = 31 then
           (if fraction \<noteq> 0 then NaN else if negative then NegInf else PosInf)
         else Finite (sign * 2 powi (int exponent - 15) * (1 + of_nat fraction / 1024)))"

text \<open>
  The width of a sample in bytes, and the raw value of the bytes of one sample: a signed
  little-endian integer, an IEEE-754 pattern, or a half-precision pattern.
\<close>

definition sample_width :: "NumericType \<Rightarrow> nat" where
  "sample_width t = (case t of int16 \<Rightarrow> 2 | int32 \<Rightarrow> 4 | float32 \<Rightarrow> 4 | float16 \<Rightarrow> 2
                     | gps \<Rightarrow> 8 | timestamp \<Rightarrow> 4)"

definition raw_value_spec :: "NumericType \<Rightarrow> byte list \<Rightarrow> number" where
  "raw_value_spec t bs =
     (case t of
        int16 \<Rightarrow> Finite (of_int (sint (word_of_nat (le_value bs) :: 16 word)))
      | int32 \<Rightarrow> Finite (of_int (sint (word_of_nat (le_value bs) :: 32 word)))
      | timestamp \<Rightarrow> Finite (of_int (sint (word_of_nat (le_value bs) :: 32 word)))
      | float32 \<Rightarrow> ieee_value 8 23 (le_value bs)
      | gps \<Rightarrow> ieee_value 11 52 (le_value bs)
      | float16 \<Rightarrow> half_float_spec (le_value bs))"

text \<open>
  The bytes of sample \<open>i\<close> of an array that starts at \<open>start\<close>.
\<close>

definition sample_bytes :: "NumericType \<Rightarrow> byte list \<Rightarrow> nat \<Rightarrow> nat \<Rightarrow> byte list" where
  "sample_bytes t buf start i =
     take (sample_width t) (drop (start + i * sample_width t) buf)"

text \<open>
  The integer fields of the channel record at \<open>p\<close>, in the order of the format, each with
  its offset and its width; and the offset of the first of them that does not lie in the
  buffer, if there is one.
\<close>

definition record_reads :: "nat \<Rightarrow> (nat \<times> nat) list" where
  "record_reads p =
     [(p, 4), (p + 4, 4), (p + 8, 4), (p + 12, 4),
      (p + 18, 2), (p + 20, 2), (p + 22, 2),
      (p + 24, 2), (p + 26, 2), (p + 28, 2), (p + 30, 2)]"

definition first_failing_read :: "byte list \<Rightarrow> nat \<Rightarrow> nat option" where
  "first_failing_read buf p =
     map_option fst (find (\<lambda>(off, width). length buf < off + width) (record_reads p))"

text \<open>
  The channel that the record at offset \<open>p\<close> of a buffer describes: every field from its
  place in the record, the data type from the table, no samples read yet.
\<close>

definition record_at :: "byte list \<Rightarrow> nat \<Rightarrow> LdChan" where
  "record_at buf p =
     \<lparr>cached_data = None, metaPtr = p,
      prevMetaPtr = field_u 4 buf p,
      nextMetaPtr = field_u 4 buf (p + 4),
      dataPtr = field_u 4 buf (p + 8),
      dataLen = field_u 4 buf (p + 12),
      dtype = resolved_dtype_spec (field_u 2 buf (p + 18)) (field_u 2 buf (p + 20)),
      freq = field_u 2 buf (p + 22),
      shift = field_s 2 buf (p + 24),
      mul = field_s 2 buf (p + 26),
      scale = field_s 2 buf (p + 28),
      dec = field_s 2 buf (p + 30),
      name = field_text 32 buf (p + 32),
      shortName = field_text 8 buf (p + 64),
      unit = field_text 12 buf (p + 72)\<rparr>"

text \<open>
  The chain from \<open>p\<close>, followed for at most \<open>n\<close> links. At the pointer 0 the chain ends,
  with no further channel. At a record with an integer field outside the buffer it breaks,
  with the out-of-bounds error at the offset of the first such field. Otherwise the record
  at \<open>p\<close> is the first channel, and the chain goes on at the offset in its bytes 4 to 7.
  \<open>None\<close>: neither has happened within \<open>n\<close> links.
\<close>

fun chain_walk :: "byte list \<Rightarrow> nat \<Rightarrow> nat \<Rightarrow> (error + LdChan list) option" where
  "chain_walk buf 0 p =
     (if p = 0 then Some (Inr [])
      else case first_failing_read buf p of
             Some off \<Rightarrow> Some (Inl (OutOfBounds off))
           | None \<Rightarrow> None)"
| "chain_walk buf (Suc n) p =
     (if p = 0 then Some (Inr [])
      else case first_failing_read buf p of
             Some off \<Rightarrow> Some (Inl (OutOfBounds off))
           | None \<Rightarrow>
               (case chain_walk buf n (field_u 4 buf (p + 4)) of
                  None \<Rightarrow> None
                | Some (Inl e) \<Rightarrow> Some (Inl e)
                | Some (Inr cs) \<Rightarrow> Some (Inr (record_at buf p # cs))))"

text \<open>
  Where the assignment to a key leaves its value: in the own property of that name, or,
  for the key \<^verbatim>\<open>__proto__\<close>, in the prototype.
\<close>

definition slot :: "DataRecord \<Rightarrow> string \<Rightarrow> number list option" where
  "slot result key = (if key = ''__proto__'' then prototype result else own result key)"

section \<open>Example files\<close>

text \<open>
  A file of 1892 bytes: a header with \<^verbatim>\<open>metaPtr = 1762\<close> at offset 8 and the text
  \<^verbatim>\<open>J.Doe\<close> at offset 158, one channel record at 1762 (\<^verbatim>\<open>dataPtr = 1886\<close>, \<^verbatim>\<open>dataLen = 3\<close>,
  class 3, width 2, \<^verbatim>\<open>freq = 10\<close>, \<^verbatim>\<open>shift = 0\<close>, \<^verbatim>\<open>mul = 1\<close>, \<^verbatim>\<open>scale = 1\<close>, \<^verbatim>\<open>dec = 1\<close>,
  name \<^verbatim>\<open>Speed\<close>), and the samples 10, 20, 30 at 1886.
\<close>

definition synthetic_buffer :: "byte list" where
  "synthetic_buffer =
     replicate 8 0 @ [0xE2, 0x06, 0, 0] @ replicate 146 0
     @ [0x4A, 0x2E, 0x44, 0x6F, 0x65] @ replicate 1599 0
     @ replicate 8 0 @ [0x5E, 0x07, 0, 0] @ [3, 0, 0, 0]
     @ [0, 0] @ [3, 0] @ [2, 0] @ [10, 0]
     @ [0, 0] @ [1, 0] @ [1, 0] @ [1, 0]
     @ [0x53, 0x70, 0x65, 0x65, 0x64] @ replicate 27 0
     @ replicate 8 0 @ replicate 12 0 @ replicate 40 0
     @ [10, 0, 20, 0, 30, 0]"

definition synthetic_reader :: BinaryReader where
  "synthetic_reader = \<lparr>buffer = synthetic_buffer, position = 0\<rparr>"

definition synthetic_head :: LdHead where
  "synthetic_head =
     \<lparr>LdHead.metaPtr = 1762, LdHead.dataPtr = 0, eventPtr = 0, event = None,
      driver = ''J.Doe'', vehicleId = [], venue = [], datetime = DateNow, shortComment = []\<rparr>"

definition synthetic_chan :: LdChan where
  "synthetic_chan =
     \<lparr>cached_data = None, metaPtr = 1762, prevMetaPtr = 0, nextMetaPtr = 0, dataPtr = 1886,
      dataLen = 3, dtype = Some int16, freq = 10, shift = 0, mul = 1, scale = 1, dec = 1,
      name = ''Speed'', shortName = [], unit = []\<rparr>"

text \<open>
  Two channels with the same name over one array of samples, the second starting one
  sample later.
\<close>

definition sample_data :: "byte list" where
  "sample_data = [10, 0, 20, 0, 30, 0, 10, 0]"

definition sample_reader :: BinaryReader where
  "sample_reader = \<lparr>buffer = sample_data, position = 0\<rparr>"

definition sample_chan :: "string \<Rightarrow> DataType \<Rightarrow> nat \<Rightarrow> LdChan" where
  "sample_chan n t ptr =
     \<lparr>cached_data = None, metaPtr = 0, prevMetaPtr = 0, nextMetaPtr = 0, dataPtr = ptr,
      dataLen = 3, dtype = t, freq = 10, shift = 0, mul = 1, scale = 1, dec = 1,
      name = n, shortName = [], unit = []\<rparr>"

definition duplicate_doc :: LdData where
  "duplicate_doc =
     \<lparr>head = synthetic_head,
      channels = [sample_chan ''Speed'' (Some int16) 0, sample_chan ''Speed'' (Some int16) 2]\<rparr>"

text \<open>
  The same two channels, the first named \<^verbatim>\<open>__proto__\<close>.
\<close>

definition proto_doc :: LdData where
  "proto_doc =
     \<lparr>head = synthetic_head,
      channels = [sample_chan ''__proto__'' (Some int16) 0, sample_chan ''Speed'' (Some int16) 2]\<rparr>"

text \<open>
  An engine whose \<^verbatim>\<open>Math.pow(10, x)\<close> is the binary64 value nearest to the power.
\<close>

definition nearest_pow10 :: "int \<Rightarrow> number" where
  "nearest_pow10 e = round_double (10 powi e)"

text \<open>
  A channel record with class 9 and width 2, named \<^verbatim>\<open>Gear\<close>.
\<close>

definition mystery_record :: "byte list" where
  "mystery_record =
     replicate 18 0 @ [9, 0] @ [2, 0] @ replicate 10 0
     @ [0x47, 0x65, 0x61, 0x72] @ replicate 88 0"

definition mystery_reader :: BinaryReader where
  "mystery_reader = \<lparr>buffer = mystery_record, position = 0\<rparr>"

definition mystery_chan :: LdChan where
  "mystery_chan =
     \<lparr>cached_data = None, metaPtr = 0, prevMetaPtr = 0, nextMetaPtr = 0, dataPtr = 0,
      dataLen = 0, dtype = None, freq = 0, shift = 0, mul = 0, scale = 0, dec = 0,
      name = ''Gear'', shortName = [], unit = []\<rparr>"

text \<open>
  A channel record at offset 1 whose \<^verbatim>\<open>nextMetaPtr\<close> is 1.
\<close>

definition cyclic_buffer :: "byte list" where
  "cyclic_buffer = replicate 5 0 @ [1, 0, 0, 0] @ replicate 24 0"

section \<open>The reader\<close>

lemma readUInt32LE_eq:
  "readUInt32LE r =
     (if position r + 4 \<le> length (buffer r)
      then (Inr (field_u 4 (buffer r) (position r)), r\<lparr>position := position r + 4\<rparr>)
      else (Inl (OutOfBounds (position r)), r))"
  by (simp add: readUInt32LE_def buffer_read_def field_u_def)

lemma readUInt16LE_eq:
  "readUInt16LE r =
     (if position r + 2 \<le> length (buffer r)
      then (Inr (field_u 2 (buffer r) (position r)), r\<lparr>position := position r + 2\<rparr>)
      else (Inl (OutOfBounds (position r)), r))"
  by (simp add: readUInt16LE_def buffer_read_def field_u_def)

lemma readInt16LE_eq:
  "readInt16LE r =
     (if position r + 2 \<le> length (buffer r)
      then (Inr (field_s 2 (buffer r) (position r)), r\<lparr>position := position r + 2\<rparr>)
      else (Inl (OutOfBounds (position r)), r))"
  by (simp add: readInt16LE_def buffer_read_def field_u_def field_s_def)

lemma readInt32LE_eq:
  "readInt32LE r =
     (if position r + 4 \<le> length (buffer r)
      then (Inr (field_s 4 (buffer r) (position r)), r\<lparr>position := position r + 4\<rparr>)
      else (Inl (OutOfBounds (position r)), r))"
  by (simp add: readInt32LE_def buffer_read_def field_u_def field_s_def)

lemma readBytes_eq:
  "readBytes n r = (Inr (take n (drop (position r) (buffer r))), r\<lparr>position := position r + n\<rparr>)"
  by (simp add: readBytes_def slice_def)

lemma bnd_seek [simp]: "bnd (seek p) f r = f () (r\<lparr>position := p\<rparr>)"
  by (simp add: bnd_def seek_def)

lemma bnd_skip [simp]: "bnd (skip n) f r = f () (r\<lparr>position := position r + n\<rparr>)"
  by (simp add: bnd_def skip_def)

lemma bnd_tell [simp]: "bnd tell f r = f (position r) r"
  by (simp add: bnd_def tell_def)

lemma bnd_ret [simp]: "bnd (ret v) f r = f v r"
  by (simp add: bnd_def ret_def)

lemma bnd_readBytes [simp]:
  "bnd (readBytes n) f r =
     f (take n (drop (position r) (buffer r))) (r\<lparr>position := position r + n\<rparr>)"
  by (simp add: bnd_def readBytes_eq)

lemma bnd_readUInt32LE:
  "bnd readUInt32LE f r =
     (if position r + 4 \<le> length (buffer r)
      then f (field_u 4 (buffer r) (position r)) (r\<lparr>position := position r + 4\<rparr>)
      else (Inl (OutOfBounds (position r)), r))"
  by (simp add: bnd_def readUInt32LE_eq)

lemma bnd_readUInt16LE:
  "bnd readUInt16LE f r =
     (if position r + 2 \<le> length (buffer r)
      then f (field_u 2 (buffer r) (position r)) (r\<lparr>position := position r + 2\<rparr>)
      else (Inl (OutOfBounds (position r)), r))"
  by (simp add: bnd_def readUInt16LE_eq)

lemma bnd_readInt16LE:
  "bnd readInt16LE f r =
     (if position r + 2 \<le> length (buffer r)
      then f (field_s 2 (buffer r) (position r)) (r\<lparr>position := position r + 2\<rparr>)
      else (Inl (OutOfBounds (position r)), r))"
  by (simp add: bnd_def readInt16LE_eq)

lemmas bnd_reads = bnd_readUInt32LE bnd_readUInt16LE bnd_readInt16LE

lemma bnd_result:
  assumes "bnd m (\<lambda>v. ret (F v)) r = (Inr h, r')"
  shows "\<exists>v. h = F v"
  using assms by (auto simp: bnd_def ret_def split: prod.splits sum.splits)

lemma le_value_bound: "le_value bs < 256 ^ length bs"
proof (induction bs)
  case Nil
  then show ?case by simp
next
  case (Cons b bs)
  have "unat b < 256" using unsigned_less[of b] by simp
  with Cons show ?case by simp
qed

lemma field_u_bound: "field_u w buf off < 256 ^ w"
proof -
  have "le_value (take w (drop off buf)) < 256 ^ length (take w (drop off buf))"
    by (rule le_value_bound)
  also have "\<dots> \<le> 256 ^ w" by (intro power_increasing) simp_all
  finally show ?thesis by (simp add: field_u_def)
qed

lemma le_value_zeros [simp]: "le_value (replicate n 0) = 0"
  by (induction n) simp_all

section \<open>Signed integers\<close>

lemma mod_shift_high:
  fixes x a :: int
  assumes "a \<le> x" "x < 2 * a"
  shows "(x + a) mod (2 * a) = x - a"
proof -
  have "(x + a) mod (2 * a) = (x - a + 2 * a) mod (2 * a)" by (simp add: algebra_simps)
  also have "\<dots> = (x - a) mod (2 * a)" by (simp only: mod_add_self2)
  also have "\<dots> = x - a" using assms by (intro mod_pos_pos_trivial) auto
  finally show ?thesis .
qed

lemma mod_shift_low:
  fixes x a :: int
  assumes "0 \<le> x" "x < a"
  shows "(x + a) mod (2 * a) = x + a"
  using assms by (intro mod_pos_pos_trivial) auto

lemma to_signed_16: "u < 2 ^ 16 \<Longrightarrow> to_signed 16 u = sint (word_of_nat u :: 16 word)"
  using mod_shift_high[of 32768 "int u"] mod_shift_low[of "int u" 32768]
  by (simp add: to_signed_def signed_of_nat signed_take_bit_eq_take_bit_shift take_bit_eq_mod)

lemma to_signed_32: "u < 2 ^ 32 \<Longrightarrow> to_signed 32 u = sint (word_of_nat u :: 32 word)"
  using mod_shift_high[of 2147483648 "int u"] mod_shift_low[of "int u" 2147483648]
  by (simp add: to_signed_def signed_of_nat signed_take_bit_eq_take_bit_shift take_bit_eq_mod)

section \<open>Rounding is exact on short dyadic numbers\<close>

lemma pow2_bitlen_low:
  assumes "0 < p"
  shows "(2::rat) powi (bitlen p - 1) \<le> of_int p"
proof -
  have "bitlen p - 1 \<ge> 0" using assms bitlen_bounds[of p] bitlen_nonneg[of p]
    by (smt (verit) bitlen_eq_zero_iff)
  then have "(2::rat) powi (bitlen p - 1) = 2 ^ nat (bitlen p - 1)"
    by (simp add: power_int_def)
  also have "\<dots> = of_int (2 ^ nat (bitlen p - 1))" by simp
  also have "\<dots> \<le> of_int p" using bitlen_bounds[OF assms] by (subst of_int_le_iff) simp
  finally show ?thesis .
qed

lemma pow2_bitlen_high:
  assumes "0 < p"
  shows "of_int p < (2::rat) powi (bitlen p)"
proof -
  have "(2::rat) powi (bitlen p) = 2 ^ nat (bitlen p)"
    using bitlen_nonneg[of p] by (simp add: power_int_def)
  also have "\<dots> = of_int (2 ^ nat (bitlen p))" by simp
  finally show ?thesis using bitlen_bounds[OF assms] by (simp only: of_int_less_iff)
qed

lemma flog2_bounds:
  assumes "0 < a"
  shows "2 powi (flog2 a) \<le> a" and "a < 2 powi (flog2 a + 1)"
proof -
  obtain p q where pq: "quotient_of a = (p, q)" by (cases "quotient_of a")
  have q: "0 < q" using pq by (rule quotient_of_denom_pos)
  have a: "a = of_int p / of_int q" using pq by (rule quotient_of_div)
  have p: "0 < p" using assms q unfolding a by (simp add: zero_less_divide_iff)
  define d where "d = bitlen p - bitlen q"
  have lo: "(2::rat) powi (d - 1) \<le> a"
  proof -
    have "(2::rat) powi (d - 1) = 2 powi (bitlen p - 1) / 2 powi (bitlen q)"
      unfolding d_def by (simp add: power_int_diff)
    also have "\<dots> \<le> of_int p / of_int q"
      using pow2_bitlen_low[OF p] pow2_bitlen_high[OF q] p q
      by (intro frac_le) (simp_all add: less_imp_le)
    finally show ?thesis unfolding a .
  qed
  have hi: "a < (2::rat) powi (d + 1)"
  proof -
    have "of_int p / of_int q < (2::rat) powi (bitlen p) / 2 powi (bitlen q - 1)"
      using pow2_bitlen_low[OF q] pow2_bitlen_high[OF p] p q
      by (intro frac_less) (simp_all add: less_imp_le)
    also have "\<dots> = 2 powi (d + 1)"
      unfolding d_def by (simp add: power_int_diff power_int_add)
    finally show ?thesis unfolding a .
  qed
  have f: "flog2 a = (if 2 powi d \<le> a then d else d - 1)"
    by (simp add: flog2_def pq d_def Let_def)
  show "2 powi (flog2 a) \<le> a" using lo by (simp add: f)
  have "a < 2 powi d" if "\<not> 2 powi d \<le> a" using that by simp
  then show "a < 2 powi (flog2 a + 1)" using hi by (auto simp add: f)
qed

lemma flog2_less:
  assumes "0 < a" "a < 2 powi n"
  shows "flog2 a < n"
proof (rule ccontr)
  assume "\<not> flog2 a < n"
  then have "n \<le> flog2 a" by simp
  then have "(2::rat) powi n \<le> 2 powi (flog2 a)" by (intro power_int_increasing) simp_all
  with flog2_bounds(1)[OF assms(1)] assms(2) show False by simp
qed

lemma flog2_eqI:
  assumes "0 < a" "2 powi e \<le> a" "a < 2 powi (e + 1)"
  shows "flog2 a = e"
proof -
  have "flog2 a < e + 1" using flog2_less[OF assms(1,3)] .
  moreover have "e < flog2 a + 1"
  proof (rule ccontr)
    assume "\<not> e < flog2 a + 1"
    then have "flog2 a + 1 \<le> e" by simp
    then have "(2::rat) powi (flog2 a + 1) \<le> 2 powi e" by (intro power_int_increasing) simp_all
    with flog2_bounds(2)[OF assms(1)] assms(2) show False by simp
  qed
  ultimately show ?thesis by simp
qed

lemma floor_numeral_div: "\<lfloor>(numeral a :: rat) / numeral b\<rfloor> = numeral a div numeral b"
  using floor_divide_of_int_eq[of "numeral a" "numeral b", where ?'a = rat] by simp

lemma round_half_even_of_int: "round_half_even (of_int n) = n"
  by (simp add: round_half_even_def)

lemma round_double_dyadic:
  assumes k: "\<bar>k\<bar> < 2 ^ 53" and j: "- 1074 \<le> j"
    and b: "\<bar>of_int k * 2 powi j\<bar> < (2::rat) powi 1024"
  shows "round_double (of_int k * 2 powi j) = Finite (of_int k * 2 powi j)"
proof (cases "k = 0")
  case True
  then show ?thesis by (simp add: round_double_def)
next
  case False
  define q :: rat where "q = of_int k * 2 powi j"
  define a where "a = \<bar>q\<bar>"
  have a: "a = of_int \<bar>k\<bar> * 2 powi j" by (simp add: a_def q_def abs_mult)
  have apos: "0 < a" using False by (simp add: a)
  have "a < 2 ^ 53 * 2 powi j"
  proof -
    have "(of_int \<bar>k\<bar> :: rat) < of_int (2 ^ 53)" using k by (simp only: of_int_less_iff)
    then show ?thesis unfolding a by (simp del: of_int_abs)
  qed
  also have "\<dots> = 2 powi (53 + j)" by (simp add: power_int_add)
  finally have "flog2 a < 53 + j" using flog2_less[OF apos] by simp
  define x where "x = max (flog2 a - 52) (- 1074)"
  have xj: "x \<le> j" using \<open>flog2 a < 53 + j\<close> j by (simp add: x_def)
  have "a / 2 powi x = of_int \<bar>k\<bar> * 2 powi (j - x)" by (simp add: a power_int_diff)
  also have "\<dots> = of_int (\<bar>k\<bar> * 2 ^ nat (j - x))" using xj by (simp add: power_int_def)
  finally have m: "round_half_even (a / 2 powi x) = \<bar>k\<bar> * 2 ^ nat (j - x)"
    by (simp only: round_half_even_of_int)
  have r: "of_int (\<bar>k\<bar> * 2 ^ nat (j - x)) * 2 powi x = a"
  proof -
    have "of_int (\<bar>k\<bar> * 2 ^ nat (j - x)) * (2::rat) powi x = of_int \<bar>k\<bar> * (2 powi (j - x) * 2 powi x)"
      using xj by (simp add: power_int_def)
    also have "2 powi (j - x) * (2::rat) powi x = 2 powi j"
      by (simp add: power_int_add [symmetric])
    finally show ?thesis by (simp add: a)
  qed
  have "\<not> 2 powi 1024 \<le> a" using b by (simp add: a_def q_def)
  moreover have "sgn q * a = q" unfolding a_def by (rule sgn_mult_abs)
  moreover have "q \<noteq> 0" using False by (simp add: q_def)
  ultimately have "round_double q = Finite q"
    unfolding round_double_def Let_def a_def[symmetric] x_def[symmetric] m r
    by simp
  then show ?thesis by (simp add: q_def)
qed

lemma round_double_exact:
  assumes "q = of_int k * 2 powi j" "\<bar>k\<bar> < 2 ^ 53" "- 1074 \<le> j" "j \<le> 971"
  shows "round_double q = Finite q"
proof -
  have "\<bar>of_int k * (2::rat) powi j\<bar> = of_int \<bar>k\<bar> * 2 powi j" by (simp add: abs_mult)
  also have "\<dots> \<le> of_int \<bar>k\<bar> * 2 powi 971"
    using assms(4) by (intro mult_left_mono power_int_increasing) simp_all
  also have "\<dots> < of_int (2 ^ 53) * 2 powi 971"
    using assms(2) by (intro mult_strict_right_mono) (simp_all only: of_int_less_iff, simp)
  also have "\<dots> = 2 powi 1024" by simp
  finally show ?thesis unfolding assms(1) by (intro round_double_dyadic assms)
qed

lemma round_double_int:
  assumes "\<bar>k\<bar> < 2 ^ 53"
  shows "round_double (of_int k) = Finite (of_int k)"
  using round_double_exact[of "of_int k" k 0] assms by simp

lemma round_double_numeral:
  "\<bar>numeral n :: int\<bar> < 2 ^ 53 \<Longrightarrow> round_double (numeral n) = Finite (numeral n)"
  using round_double_int[of "numeral n"] by simp

lemma round_double_1: "round_double 1 = Finite 1"
  using round_double_int[of 1] by simp

lemma Math_pow_2_exact:
  assumes "- 1074 \<le> e" "e \<le> 971"
  shows "Math_pow_2 e = Finite (2 powi e)"
  unfolding Math_pow_2_def using assms
  by (simp add: round_double_exact[where k = 1 and j = e])

lemma Math_pow_2_m14: "Math_pow_2 (- 14) = Finite (2 powi (- 14))"
  by (rule Math_pow_2_exact) simp_all

lemma Math_pow_2_10: "Math_pow_2 10 = Finite 1024"
  using Math_pow_2_exact[of 10] by simp

section \<open>The half-precision decoder\<close>

lemma and_3FF: "(v::nat) AND 0x03FF = v mod 2 ^ 10"
proof -
  have "(0x03FF::nat) = mask 10" by (simp add: mask_eq_exp_minus_1)
  then show ?thesis by (simp only: take_bit_eq_mask[symmetric] take_bit_eq_mod)
qed

lemma drop_bit_and_field:
  "drop_bit n ((v::nat) AND push_bit n (mask k)) = (v div 2 ^ n) mod 2 ^ k"
proof -
  have "drop_bit n (v AND push_bit n (mask k)) = take_bit k (drop_bit n v)"
    by (rule bit_eqI) (auto simp: bit_simps)
  then show ?thesis by (simp add: take_bit_eq_mod drop_bit_eq_div)
qed

lemma and_7C00: "drop_bit 10 ((v::nat) AND 0x7C00) = (v div 2 ^ 10) mod 2 ^ 5"
proof -
  have "(0x7C00::nat) = push_bit 10 (mask 5)" by (simp add: mask_eq_exp_minus_1 push_bit_eq_mult)
  then show ?thesis by (simp only: drop_bit_and_field)
qed

lemma and_8000: "drop_bit 15 ((v::nat) AND 0x8000) = (v div 2 ^ 15) mod 2"
proof -
  have "(0x8000::nat) = push_bit 15 (mask 1)" by (simp add: mask_eq_exp_minus_1 push_bit_eq_mult)
  then show ?thesis by (simp only: drop_bit_and_field power_one_right)
qed

lemma readFloat16_subnormal:
  assumes "f < 2 ^ 10" "s = 1 \<or> s = - 1"
  shows "num_mul (num_mul (num_of_int s) (Math_pow_2 (- 14)))
           (num_div (num_of_nat f) (Math_pow_2 10))
         = Finite (of_int s * 2 powi (- 14) * (of_nat f / 1024))"
proof -
  have 1: "round_double (of_int s * 2 powi (- 14)) = Finite (of_int s * 2 powi (- 14))"
    using assms(2) by (intro round_double_exact[where k = s and j = "- 14"]) auto
  have 2: "round_double (of_nat f / 1024) = Finite (of_nat f / 1024)"
    using assms(1) by (intro round_double_exact[where k = "int f" and j = "- 10"]) (auto simp: power_int_minus)
  have 3: "round_double (of_int s * 2 powi (- 14) * (of_nat f / 1024))
             = Finite (of_int s * 2 powi (- 14) * (of_nat f / 1024))"
    using assms by (intro round_double_exact[where k = "s * int f" and j = "- 24"])
      (auto simp: power_int_minus abs_mult)
  have a: "num_mul (num_of_int s) (Math_pow_2 (- 14)) = Finite (of_int s * 2 powi (- 14))"
    unfolding num_of_int_def Math_pow_2_m14 num_mul.simps by (rule 1)
  have b: "num_div (num_of_nat f) (Math_pow_2 10) = Finite (of_nat f / 1024)"
    unfolding num_of_nat_def Math_pow_2_10 using 2 by simp
  show ?thesis unfolding a b num_mul.simps by (rule 3)
qed

lemma readFloat16_normal:
  assumes "f < 2 ^ 10" "s = 1 \<or> s = - 1" "0 < e" "e < 31"
  shows "num_mul (num_mul (num_of_int s) (Math_pow_2 (int e - 15)))
           (num_add (num_of_int 1) (num_div (num_of_nat f) (Math_pow_2 10)))
         = Finite (of_int s * 2 powi (int e - 15) * (1 + of_nat f / 1024))"
proof -
  have p: "Math_pow_2 (int e - 15) = Finite (2 powi (int e - 15))"
    using assms by (intro Math_pow_2_exact) simp_all
  have 1: "round_double (of_int s * 2 powi (int e - 15)) = Finite (of_int s * 2 powi (int e - 15))"
    using assms by (intro round_double_exact[where k = s and j = "int e - 15"]) auto
  have 2: "round_double (of_nat f / 1024) = Finite (of_nat f / 1024)"
    using assms(1) by (intro round_double_exact[where k = "int f" and j = "- 10"]) (auto simp: power_int_minus)
  have 3: "round_double (1 + of_nat f / 1024) = Finite (1 + of_nat f / 1024)"
    using assms(1) by (intro round_double_exact[where k = "1024 + int f" and j = "- 10"])
      (auto simp: power_int_minus field_simps)
  have 4: "round_double (of_int s * 2 powi (int e - 15) * (1 + of_nat f / 1024))
             = Finite (of_int s * 2 powi (int e - 15) * (1 + of_nat f / 1024))"
    using assms by (intro round_double_exact[where k = "s * (1024 + int f)" and j = "int e - 25"])
      (auto simp: power_int_diff abs_mult field_simps)
  have a: "num_mul (num_of_int s) (Math_pow_2 (int e - 15)) = Finite (of_int s * 2 powi (int e - 15))"
    unfolding num_of_int_def p num_mul.simps by (rule 1)
  have b: "num_div (num_of_nat f) (Math_pow_2 10) = Finite (of_nat f / 1024)"
    unfolding num_of_nat_def Math_pow_2_10 using 2 by simp
  have c: "num_add (num_of_int 1) (Finite (of_nat f / 1024)) = Finite (1 + of_nat f / 1024)"
    unfolding num_of_int_def using 3 by simp
  show ?thesis unfolding a b c num_mul.simps by (rule 4)
qed

lemma readFloat16_eq:
  assumes "position r + 2 \<le> length (buffer r)"
  shows "readFloat16 r =
           (Inr (half_float_spec (field_u 2 (buffer r) (position r))),
            r\<lparr>position := position r + 2\<rparr>)"
proof -
  define v where "v = field_u 2 (buffer r) (position r)"
  define e where "e = (v div 2 ^ 10) mod 2 ^ 5"
  define f where "f = v mod 2 ^ 10"
  define s :: int where "s = (if (v div 2 ^ 15) mod 2 \<noteq> 0 then - 1 else 1)"
  have f: "f < 2 ^ 10" by (simp add: f_def)
  have s: "s = 1 \<or> s = - 1" by (simp add: s_def)
  have e: "e < 32" by (simp add: e_def)
  have neg: "((v div 2 ^ 15) mod 2 = 1) = ((v div 2 ^ 15) mod 2 \<noteq> 0)" by presburger
  have spec: "half_float_spec v =
     (if e = 0 then Finite (of_int s * 2 powi (- 14) * (of_nat f / 1024))
      else if e = 31 then (if f \<noteq> 0 then NaN else if (v div 2 ^ 15) mod 2 \<noteq> 0 then NegInf else PosInf)
      else Finite (of_int s * 2 powi (int e - 15) * (1 + of_nat f / 1024)))"
    unfolding half_float_spec_def Let_def neg e_def[symmetric] f_def[symmetric] s_def
    by (simp del: power_int_minus)
  have code: "readFloat16 r =
     ((if e = 0 then
          ret (num_mul (num_mul (num_of_int s) (Math_pow_2 (- 14)))
                 (num_div (num_of_nat f) (Math_pow_2 10)))
        else if e = 0x1F then
          ret (if f \<noteq> 0 then NaN else (if (v div 2 ^ 15) mod 2 \<noteq> 0 then NegInf else PosInf))
        else
          ret (num_mul
                 (num_mul (num_of_int s) (Math_pow_2 (int e - 15)))
                 (num_add (num_of_int 1) (num_div (num_of_nat f) (Math_pow_2 10)))))
       (r\<lparr>position := position r + 2\<rparr>))"
    using assms
    unfolding readFloat16_def bnd_readUInt16LE Let_def and_3FF and_7C00 and_8000
      v_def[symmetric] e_def[symmetric] f_def[symmetric] s_def
    by simp
  show ?thesis
  proof (cases "e = 0")
    case True
    then show ?thesis
      unfolding code spec v_def[symmetric] using readFloat16_subnormal[OF f s]
      by (simp add: ret_def del: power_int_minus)
  next
    case False
    show ?thesis
    proof (cases "e = 31")
      case True
      then show ?thesis unfolding code spec v_def[symmetric] by (simp add: ret_def)
    next
      case F2: False
      have "0 < e" "e < 31" using False F2 e by simp_all
      from readFloat16_normal[OF f s this] False F2 show ?thesis
        unfolding code spec v_def[symmetric] by (simp add: ret_def del: power_int_minus)
    qed
  qed
qed

lemma readFloat16_bytes:
  "fst (readFloat16 \<lparr>buffer = pre @ [lo, hi] @ post, position = length pre\<rparr>)
     = Inr (half_float_spec (unat lo + 256 * unat hi))"
proof -
  let ?r = "\<lparr>buffer = pre @ [lo, hi] @ post, position = length pre\<rparr>"
  have "position ?r + 2 \<le> length (buffer ?r)" by simp
  from readFloat16_eq[OF this] show ?thesis by (simp add: field_u_def)
qed

lemma half_float_examples:
  "half_float_spec 0x3C00 = Finite 1"
  "half_float_spec 0xC000 = Finite (- 2)"
  "half_float_spec 0x7C00 = PosInf"
  "half_float_spec 0xFC00 = NegInf"
  "half_float_spec 0x7E00 = NaN"
  "half_float_spec 0x0000 = Finite 0"
  by (simp_all add: half_float_spec_def)

section \<open>Reading arrays and channel data\<close>

lemma read_value_eq:
  assumes "position r + sample_width t \<le> length (buffer r)"
  shows "read_value t r =
     (Inr (raw_value_spec t (take (sample_width t) (drop (position r) (buffer r)))),
      r\<lparr>position := position r + sample_width t\<rparr>)"
proof (cases t)
  case int16
  have "field_u 2 (buffer r) (position r) < 2 ^ 16" using field_u_bound[of 2] by simp
  then show ?thesis using assms int16
    by (simp add: sample_width_def raw_value_spec_def bnd_readInt16LE ret_def num_of_int_def
        field_s_def to_signed_16 field_u_def)
next
  case int32
  have "field_u 4 (buffer r) (position r) < 2 ^ 32" using field_u_bound[of 4] by simp
  then show ?thesis using assms int32
    by (simp add: sample_width_def raw_value_spec_def bnd_def readInt32LE_eq ret_def num_of_int_def
        field_s_def to_signed_32 field_u_def)
next
  case float32
  then show ?thesis using assms
    by (simp add: sample_width_def raw_value_spec_def readFloatLE_def buffer_read_def)
next
  case float16
  then show ?thesis using assms readFloat16_eq[of r]
    by (simp add: sample_width_def raw_value_spec_def field_u_def)
next
  case gps
  then show ?thesis using assms
    by (simp add: sample_width_def raw_value_spec_def readDoubleLE_def buffer_read_def)
next
  case timestamp
  have "field_u 4 (buffer r) (position r) < 2 ^ 32" using field_u_bound[of 4] by simp
  then show ?thesis using assms timestamp
    by (simp add: sample_width_def raw_value_spec_def bnd_def readInt32LE_eq ret_def num_of_int_def
        field_s_def to_signed_32 field_u_def)
qed

lemma read_value_fail:
  assumes "length (buffer r) < position r + sample_width t"
  shows "read_value t r = (Inl (OutOfBounds (position r)), r)"
  using assms
  by (cases t) (simp_all add: sample_width_def bnd_def readInt16LE_eq readInt32LE_eq
      readFloatLE_def readDoubleLE_def buffer_read_def readFloat16_def readUInt16LE_eq)

lemma readNumericArray_loop_eq:
  assumes "position r + n * sample_width t \<le> length (buffer r)"
  shows "readNumericArray_loop n t acc r =
     (Inr (acc @ map (\<lambda>i. raw_value_spec t (sample_bytes t (buffer r) (position r) i)) [0..<n]),
      r\<lparr>position := position r + n * sample_width t\<rparr>)"
  using assms
proof (induction n arbitrary: acc r)
  case 0
  then show ?case by (simp add: ret_def)
next
  case (Suc n)
  let ?w = "sample_width t"
  let ?r' = "r\<lparr>position := position r + ?w\<rparr>"
  have 1: "position r + ?w \<le> length (buffer r)" using Suc.prems by simp
  have 2: "position ?r' + n * ?w \<le> length (buffer ?r')" using Suc.prems by (simp add: algebra_simps)
  have m: "map (\<lambda>i. raw_value_spec t (sample_bytes t (buffer r) (position r) i)) [0..<Suc n]
         = raw_value_spec t (sample_bytes t (buffer r) (position r) 0)
           # map (\<lambda>i. raw_value_spec t (sample_bytes t (buffer r) (position r + ?w) i)) [0..<n]"
    by (simp add: upt_conv_Cons map_Suc_upt[symmetric] sample_bytes_def algebra_simps del: upt_Suc)
  have "readNumericArray_loop (Suc n) t acc r =
          readNumericArray_loop n t
            (acc @ [raw_value_spec t (take ?w (drop (position r) (buffer r)))]) ?r'"
    by (simp add: bnd_def read_value_eq[OF 1])
  also note Suc.IH[OF 2]
  finally show ?case
    unfolding m by (simp add: sample_bytes_def algebra_simps del: upt_Suc)
qed

lemma readNumericArray_eq:
  assumes "p + n * sample_width t \<le> length (buffer r)"
  shows "readNumericArray p n t r =
     (Inr (map (\<lambda>i. raw_value_spec t (sample_bytes t (buffer r) p i)) [0..<n]),
      r\<lparr>position := p + n * sample_width t\<rparr>)"
  using readNumericArray_loop_eq[of "r\<lparr>position := p\<rparr>" n t "[]"] assms
  by (simp add: readNumericArray_def)

lemma readNumericArray_loop_error:
  "readNumericArray_loop n t acc r = (Inl e, r') \<Longrightarrow> \<exists>off. e = OutOfBounds off"
proof (induction n arbitrary: acc r)
  case 0
  then show ?case by (simp add: ret_def)
next
  case (Suc n)
  show ?case
  proof (cases "position r + sample_width t \<le> length (buffer r)")
    case True
    from Suc.prems show ?thesis
      by (simp add: bnd_def read_value_eq[OF True]) (rule Suc.IH)
  next
    case False
    then have "length (buffer r) < position r + sample_width t" by simp
    from Suc.prems read_value_fail[OF this] show ?thesis by (auto simp: bnd_def)
  qed
qed

lemma read_value_buffer: "buffer (snd (read_value t r)) = buffer r"
proof (cases "position r + sample_width t \<le> length (buffer r)")
  case True
  then show ?thesis by (simp add: read_value_eq)
next
  case False
  then show ?thesis by (simp add: read_value_fail)
qed

lemma readNumericArray_loop_buffer:
  "buffer (snd (readNumericArray_loop n t acc r)) = buffer r"
proof (induction n arbitrary: acc r)
  case 0
  then show ?case by (simp add: ret_def)
next
  case (Suc n)
  show ?case using read_value_buffer[of t r] Suc.IH
    by (auto simp: bnd_def split: prod.splits sum.splits)
qed

lemma LdChan_data_first_access:
  assumes "dtype ch = Some t" "cached_data ch = None"
    and "dataPtr ch + dataLen ch * sample_width t \<le> length (buffer r)"
  shows "LdChan_data pow10 ch r =
     (let d = map (\<lambda>i. scaling pow10 ch (raw_value_spec t (sample_bytes t (buffer r) (dataPtr ch) i)))
                [0..<dataLen ch]
      in (Inr d, ch\<lparr>cached_data := Some d\<rparr>,
          r\<lparr>position := dataPtr ch + dataLen ch * sample_width t\<rparr>))"
  using assms
  by (simp add: LdChan_data_def readNumericArray_eq Let_def comp_def)

lemma LdChan_data_error:
  assumes "fst (LdChan_data pow10 ch r) = Inl e"
  shows "e = UnknownDataType (name ch) \<or> (\<exists>off. e = OutOfBounds off)"
  using assms readNumericArray_loop_error
  by (fastforce simp: LdChan_data_def readNumericArray_def Let_def
      split: option.splits prod.splits sum.splits)

lemma LdChan_data_buffer:
  "buffer (snd (snd (LdChan_data pow10 ch r))) = buffer r"
proof -
  have "buffer (snd (readNumericArray p n t r)) = buffer r" for p n t
    by (simp add: readNumericArray_def readNumericArray_loop_buffer)
  from this[of "dataPtr ch" "dataLen ch"] show ?thesis
    by (cases "dtype ch"; cases "cached_data ch")
       (auto simp: LdChan_data_def Let_def split: prod.splits sum.splits, (metis snd_conv)+)
qed

lemma LdChan_data_position_free:
  assumes "buffer r1 = buffer r2"
  shows "fst (LdChan_data pow10 ch r1) = fst (LdChan_data pow10 ch r2)"
proof -
  have "r1\<lparr>position := p\<rparr> = r2\<lparr>position := p\<rparr>" for p using assms by simp
  then have "readNumericArray p n t r1 = readNumericArray p n t r2" for p n t
    unfolding readNumericArray_def bnd_seek by (rule arg_cong)
  then show ?thesis
    by (simp add: LdChan_data_def split: option.splits)
qed

section \<open>Channel records and the chain\<close>

lemma LdChan_fromFile_ok:
  assumes "p + 32 \<le> length (buffer r)"
  shows "LdChan_fromFile p r =
     (Inr \<lparr>cached_data = None, metaPtr = p,
           prevMetaPtr = field_u 4 (buffer r) p,
           nextMetaPtr = field_u 4 (buffer r) (p + 4),
           dataPtr = field_u 4 (buffer r) (p + 8),
           dataLen = field_u 4 (buffer r) (p + 12),
           dtype = determine_dtype (field_u 2 (buffer r) (p + 18)) (field_u 2 (buffer r) (p + 20)),
           freq = field_u 2 (buffer r) (p + 22),
           shift = field_s 2 (buffer r) (p + 24),
           mul = field_s 2 (buffer r) (p + 26),
           scale = field_s 2 (buffer r) (p + 28),
           dec = field_s 2 (buffer r) (p + 30),
           name = field_text 32 (buffer r) (p + 32),
           shortName = field_text 8 (buffer r) (p + 64),
           unit = field_text 12 (buffer r) (p + 72)\<rparr>,
      r\<lparr>position := p + 124\<rparr>)"
  using assms unfolding LdChan_fromFile_def determine_dtype_def[symmetric]
  by (simp add: bnd_reads field_text_def ret_def Let_def add.commute)

lemma LdChan_fromFile_fail:
  assumes "length (buffer r) < p + 32"
  shows "\<exists>off. LdChan_fromFile p r = (Inl (OutOfBounds off), r\<lparr>position := off\<rparr>)"
  using assms
  by (simp add: LdChan_fromFile_def bnd_reads)

lemma determine_dtype_eq_spec: "determine_dtype a b = resolved_dtype_spec a b"
  by (simp add: determine_dtype_def resolved_dtype_spec_def dtype_table_def)

lemma first_failing_read_None:
  "(first_failing_read buf p = None) = (p + 32 \<le> length buf)"
  by (auto simp: first_failing_read_def record_reads_def)

lemma LdChan_fromFile_cases:
  "LdChan_fromFile p r =
     (case first_failing_read (buffer r) p of
        None \<Rightarrow> (Inr (record_at (buffer r) p), r\<lparr>position := p + 124\<rparr>)
      | Some off \<Rightarrow> (Inl (OutOfBounds off), r\<lparr>position := off\<rparr>))"
  unfolding LdChan_fromFile_def determine_dtype_def[symmetric]
  by (simp add: first_failing_read_def record_reads_def bnd_reads record_at_def
        determine_dtype_eq_spec field_text_def ret_def Let_def add.commute)

lemma LdChan_fromFile_record:
  assumes "first_failing_read (buffer r) p = None"
  shows "LdChan_fromFile p r = (Inr (record_at (buffer r) p), r\<lparr>position := p + 124\<rparr>)"
  using assms by (simp add: LdChan_fromFile_cases)

lemma LdChan_fromFile_fail_at:
  assumes "first_failing_read (buffer r) p = Some off"
  shows "LdChan_fromFile p r = (Inl (OutOfBounds off), r\<lparr>position := off\<rparr>)"
  using assms by (simp add: LdChan_fromFile_cases)

lemma readChannels_loop_walk:
  "chain_walk (buffer r) n p = Some res \<Longrightarrow>
     \<exists>r'. readChannels_loop acc p r = Some (map_sum id (\<lambda>cs. acc @ cs) res, r')"
proof (induction n arbitrary: acc p r res)
  case 0
  show ?case
  proof (cases "p = 0")
    case True
    with 0 show ?thesis by (auto simp: readChannels_loop.simps)
  next
    case False
    with 0 obtain off where f: "first_failing_read (buffer r) p = Some off"
      and res: "res = Inl (OutOfBounds off)"
      by (auto split: option.splits)
    show ?thesis using False res
      by (subst readChannels_loop.simps) (simp add: LdChan_fromFile_fail_at[OF f])
  qed
next
  case (Suc n)
  show ?case
  proof (cases "p = 0")
    case True
    with Suc.prems show ?thesis by (auto simp: readChannels_loop.simps)
  next
    case False
    show ?thesis
    proof (cases "first_failing_read (buffer r) p")
      case (Some off)
      with Suc.prems False have res: "res = Inl (OutOfBounds off)" by simp
      show ?thesis using False res
        by (subst readChannels_loop.simps) (simp add: LdChan_fromFile_fail_at[OF Some])
    next
      case None
      let ?c = "record_at (buffer r) p"
      let ?r = "r\<lparr>position := p + 124\<rparr>"
      from Suc.prems False None obtain res' where
        w: "chain_walk (buffer ?r) n (field_u 4 (buffer r) (p + 4)) = Some res'"
        and res: "res = map_sum id (\<lambda>cs. ?c # cs) res'"
        by (auto split: option.splits sum.splits)
      from Suc.IH[OF w, of "acc @ [?c]"] obtain r' where
        "readChannels_loop (acc @ [?c]) (field_u 4 (buffer r) (p + 4)) ?r
           = Some (map_sum id (\<lambda>cs. (acc @ [?c]) @ cs) res', r')" ..
      moreover have "map_sum id (\<lambda>cs. (acc @ [?c]) @ cs) res' = map_sum id (\<lambda>cs. acc @ cs) res"
        using res by (cases res') simp_all
      moreover have "nextMetaPtr ?c = field_u 4 (buffer r) (p + 4)" by (simp add: record_at_def)
      ultimately show ?thesis using False
        by (subst readChannels_loop.simps) (simp add: LdChan_fromFile_record[OF None])
    qed
  qed
qed

lemma readChannels_loop_returns:
  assumes "readChannels_loop acc p r = Some y"
  shows "\<exists>n res. chain_walk (buffer r) n p = Some res \<and>
                  fst y = map_sum id (\<lambda>cs. acc @ cs) res"
  using assms
proof (induct rule: readChannels_loop.raw_induct[rotated 1, consumes 1, case_names step])
  case (step f acc p r y)
  note 1 = step
  show ?case
  proof (cases "p = 0")
    case True
    with 1(2) have "fst y = Inr acc" by auto
    moreover have "chain_walk (buffer r) 0 p = Some (Inr [])" using True by simp
    ultimately have "chain_walk (buffer r) 0 p = Some (Inr []) \<and>
        fst y = map_sum id (\<lambda>cs. acc @ cs) (Inr [])" by simp
    then show ?thesis by blast
  next
    case False
    show ?thesis
    proof (cases "first_failing_read (buffer r) p")
      case (Some off)
      from 1(2) False have "fst y = Inl (OutOfBounds off)"
        by (auto simp: LdChan_fromFile_fail_at[OF Some])
      moreover have "chain_walk (buffer r) 0 p = Some (Inl (OutOfBounds off))"
        using False Some by simp
      ultimately have "chain_walk (buffer r) 0 p = Some (Inl (OutOfBounds off)) \<and>
        fst y = map_sum id (\<lambda>cs. acc @ cs) (Inl (OutOfBounds off))" by simp
      then show ?thesis by blast
    next
      case None
      let ?c = "record_at (buffer r) p"
      let ?next = "field_u 4 (buffer r) (p + 4)"
      have nx: "nextMetaPtr ?c = ?next" by (simp add: record_at_def)
      from 1(2) False have f: "f (acc @ [?c]) ?next (r\<lparr>position := p + 124\<rparr>) = Some y"
        by (simp add: LdChan_fromFile_record[OF None] nx)
      from 1(1)[OF f] obtain n res' where
        w: "chain_walk (buffer (r\<lparr>position := p + 124\<rparr>)) n ?next = Some res'"
        and y: "fst y = map_sum id (\<lambda>cs. (acc @ [?c]) @ cs) res'"
        by blast
      have "chain_walk (buffer r) (Suc n) p = Some (map_sum id (\<lambda>cs. ?c # cs) res')"
        using False None w by (cases res') simp_all
      moreover have "fst y = map_sum id (\<lambda>cs. acc @ cs) (map_sum id (\<lambda>cs. ?c # cs) res')"
        using y by (cases res') simp_all
      ultimately show ?thesis by blast
    qed
  qed
qed

lemma map_sum_append_Nil: "map_sum id (\<lambda>cs. cs) res = res"
  by (cases res) simp_all

section \<open>The header\<close>

lemma LdHead_fromFile_ok:
  assumes "40 \<le> length (buffer r)"
  shows "LdHead_fromFile r =
     bnd (read_event_if_present (field_u 4 (buffer r) 36)) (\<lambda>event.
       ret \<lparr>LdHead.metaPtr = field_u 4 (buffer r) 8,
            LdHead.dataPtr = field_u 4 (buffer r) 12,
            eventPtr = field_u 4 (buffer r) 36,
            event = event,
            driver = field_text 64 (buffer r) 158,
            vehicleId = field_text 64 (buffer r) 222,
            venue = field_text 64 (buffer r) 350,
            datetime = parse_datetime (field_text 16 (buffer r) 94) (field_text 16 (buffer r) 126),
            shortComment = field_text 64 (buffer r) 1572\<rparr>)
       (r\<lparr>position := 1762\<rparr>)"
  using assms unfolding LdHead_fromFile_def read_event_if_present_def[symmetric]
  by (simp add: bnd_reads field_text_def)

lemma LdHead_fromFile_fail:
  assumes "length (buffer r) < 40"
  shows "\<exists>off. LdHead_fromFile r = (Inl (OutOfBounds off), r\<lparr>position := off\<rparr>)"
  using assms unfolding LdHead_fromFile_def
  by (simp add: bnd_reads)

lemma indexOf_takeWhile:
  "indexOf buf v = (if v \<in> set buf then int (length (takeWhile (\<lambda>b. b \<noteq> v) buf)) else - 1)"
  by (induction buf) (auto simp: Let_def)

lemma decodeString_eq:
  "decodeString buf = trim (toString_ascii (takeWhile (\<lambda>b. b \<noteq> 0) buf))"
proof (cases "0 \<in> set buf")
  case True
  have "take (length (takeWhile (\<lambda>b. b \<noteq> 0) buf)) buf = takeWhile (\<lambda>b. b \<noteq> 0) buf"
    by (rule takeWhile_eq_take[symmetric])
  then show ?thesis using True
    by (simp add: decodeString_def indexOf_takeWhile slice_def Let_def)
next
  case False
  then have tw: "takeWhile (\<lambda>b. b \<noteq> 0) buf = buf" by (auto simp: takeWhile_eq_all_conv)
  show ?thesis using False
    by (subst tw) (simp add: decodeString_def indexOf_takeWhile slice_def Let_def)
qed

lemma decodeString_zeros [simp]: "decodeString (replicate n 0) = []"
  by (simp add: decodeString_eq toString_ascii_def trim_def)

section \<open>The document\<close>

lemma two_matches:
  assumes "j < k" "k < length xs" "P (xs ! j)" "P (xs ! k)"
  shows "1 < length (filter P xs)"
proof -
  have "{j, k} \<subseteq> {i. i < length xs \<and> P (xs ! i)}" using assms by auto
  then have "card {j, k} \<le> card {i. i < length xs \<and> P (xs ! i)}" by (intro card_mono) auto
  then show ?thesis using assms(1) by (simp add: length_filter_conv_card)
qed

lemma slot_assign: "slot (assign result key value) = (slot result)(key \<mapsto> value)"
  by (rule ext) (simp add: slot_def assign_def)

lemma own_proto_assign: "own (assign result key value) ''__proto__'' = own result ''__proto__''"
  by (simp add: assign_def)

lemma toDataMap_loop_error:
  "fst (toDataMap_loop pow10 chs acc r) = Inl e \<Longrightarrow>
     (\<exists>n. e = UnknownDataType n) \<or> (\<exists>off. e = OutOfBounds off)"
proof (induction chs arbitrary: acc r)
  case Nil
  then show ?case by simp
next
  case (Cons c chs)
  obtain res c' r1 where d: "LdChan_data pow10 c r = (res, c', r1)"
    by (cases "LdChan_data pow10 c r")
  show ?case
  proof (cases res)
    case (Inl e')
    with Cons.prems d have "e = e'" by simp
    moreover have "fst (LdChan_data pow10 c r) = Inl e'" using d Inl by simp
    ultimately show ?thesis using LdChan_data_error by blast
  next
    case (Inr xs)
    with Cons.prems d have "fst (toDataMap_loop pow10 chs (assign acc (name c) xs) r1) = Inl e"
      by (simp split: prod.splits)
    then show ?thesis by (rule Cons.IH)
  qed
qed

lemma toDataMap_loop_result:
  "toDataMap_loop pow10 chs acc r = (Inr m, chs', r') \<Longrightarrow>
     dom (slot m) = dom (slot acc) \<union> name ` set chs \<and>
     (\<forall>n. n \<notin> name ` set chs \<longrightarrow> slot m n = slot acc n) \<and>
     (\<forall>n \<in> name ` set chs. \<exists>xs. slot m n = Some xs \<and>
        fst (LdChan_data pow10 (last (filter (\<lambda>ch. name ch = n) chs)) r) = Inr xs) \<and>
     own m ''__proto__'' = own acc ''__proto__''"
proof (induction chs arbitrary: acc r chs')
  case Nil
  then show ?case by simp
next
  case (Cons c chs)
  obtain res c' r1 where d: "LdChan_data pow10 c r = (res, c', r1)"
    by (cases "LdChan_data pow10 c r")
  from Cons.prems d obtain xs where res: "res = Inr xs" by (cases res) auto
  obtain rest' where
    l: "toDataMap_loop pow10 chs (assign acc (name c) xs) r1 = (Inr m, rest', r')"
    using Cons.prems d res by (auto split: prod.splits)
  note IH = Cons.IH[OF l, unfolded slot_assign own_proto_assign]
  have b: "buffer r1 = buffer r" using LdChan_data_buffer[of pow10 c r] d by simp
  have dom: "dom (slot m) = dom (slot acc) \<union> name ` set (c # chs)" using IH by auto
  have out: "\<forall>n. n \<notin> name ` set (c # chs) \<longrightarrow> slot m n = slot acc n" using IH by auto
  have own: "own m ''__proto__'' = own acc ''__proto__''" using IH by simp
  have "\<exists>ys. slot m n = Some ys \<and>
          fst (LdChan_data pow10 (last (filter (\<lambda>ch. name ch = n) (c # chs))) r) = Inr ys"
    if n: "n \<in> name ` set (c # chs)" for n
  proof (cases "n \<in> name ` set chs")
    case True
    then have ne: "filter (\<lambda>ch. name ch = n) chs \<noteq> []" by (auto simp: filter_empty_conv)
    from IH True obtain ys where ys: "slot m n = Some ys"
      "fst (LdChan_data pow10 (last (filter (\<lambda>ch. name ch = n) chs)) r1) = Inr ys" by blast
    have "fst (LdChan_data pow10 (last (filter (\<lambda>ch. name ch = n) chs)) r) = Inr ys"
      using ys(2) LdChan_data_position_free[OF b] by simp
    then show ?thesis using ys(1) ne by simp
  next
    case False
    with n have nc: "n = name c" by auto
    from False have e: "filter (\<lambda>ch. name ch = n) chs = []" by (auto simp: filter_empty_conv)
    have "slot m n = Some xs" using IH False nc by simp
    moreover have "fst (LdChan_data pow10 c r) = Inr xs" using d res by simp
    ultimately show ?thesis using e nc by simp
  qed
  with dom out own show ?case by blast
qed

lemma toDataMap_loop_total:
  "\<forall>ch \<in> set chs. \<not> isl (fst (LdChan_data pow10 ch r)) \<Longrightarrow>
     \<not> isl (fst (toDataMap_loop pow10 chs acc r))"
proof (induction chs arbitrary: acc r)
  case Nil
  then show ?case by simp
next
  case (Cons c chs)
  obtain res c' r1 where d: "LdChan_data pow10 c r = (res, c', r1)"
    by (cases "LdChan_data pow10 c r")
  from Cons.prems d obtain xs where res: "res = Inr xs" by (cases res) auto
  have b: "buffer r1 = buffer r" using LdChan_data_buffer[of pow10 c r] d by simp
  have "\<forall>ch \<in> set chs. \<not> isl (fst (LdChan_data pow10 ch r1))"
    using Cons.prems LdChan_data_position_free[OF b] by simp
  from Cons.IH[OF this, of "assign acc (name c) xs"]
  have "\<not> isl (fst (toDataMap_loop pow10 chs (assign acc (name c) xs) r1))" .
  moreover obtain res2 rest' r2 where
    "toDataMap_loop pow10 chs (assign acc (name c) xs) r1 = (res2, rest', r2)"
    by (cases "toDataMap_loop pow10 chs (assign acc (name c) xs) r1")
  ultimately show ?case using d res by simp
qed

text \<open>
  \<^verbatim>\<open>toDataMap\<close> on any document. It never fails with the ambiguous name error, and it
  returns an object when the access to the samples of every channel succeeds. The keys of
  the object are the names of the channels other than \<^verbatim>\<open>__proto__\<close>; each of them is bound to
  the samples of the last channel of that name, and the samples of the last channel named
  \<^verbatim>\<open>__proto__\<close> are the prototype of the object.
\<close>

lemma toDataMap_object:
  "(\<forall>n. fst (toDataMap pow10 d r) \<noteq> Inl (AmbiguousChannelName n)) \<and>
   ((\<forall>ch \<in> set (channels d). \<not> isl (fst (LdChan_data pow10 ch r))) \<longrightarrow>
      \<not> isl (fst (toDataMap pow10 d r))) \<and>
   (\<forall>m. fst (toDataMap pow10 d r) = Inr m \<longrightarrow>
      Object_keys m = set (getChannelNames d) - {''__proto__''} \<and>
      (\<forall>n \<in> set (getChannelNames d). \<exists>xs.
         (if n = ''__proto__'' then prototype m else own m n) = Some xs \<and>
         fst (LdChan_data pow10 (last (filter (\<lambda>ch. name ch = n) (channels d))) r) = Inr xs))"
proof -
  have a: "\<forall>n. fst (toDataMap pow10 d r) \<noteq> Inl (AmbiguousChannelName n)"
  proof (intro allI notI)
    fix n
    assume "fst (toDataMap pow10 d r) = Inl (AmbiguousChannelName n)"
    then have "fst (toDataMap_loop pow10 (channels d) empty_object r)
                 = Inl (AmbiguousChannelName n)"
      by (simp add: toDataMap_def split: prod.splits)
    from toDataMap_loop_error[OF this] show False by auto
  qed
  have b: "(\<forall>ch \<in> set (channels d). \<not> isl (fst (LdChan_data pow10 ch r))) \<longrightarrow>
             \<not> isl (fst (toDataMap pow10 d r))"
  proof
    assume "\<forall>ch \<in> set (channels d). \<not> isl (fst (LdChan_data pow10 ch r))"
    from toDataMap_loop_total[OF this, of empty_object]
    show "\<not> isl (fst (toDataMap pow10 d r))"
      by (auto simp: toDataMap_def split: prod.splits)
  qed
  have c: "\<forall>m. fst (toDataMap pow10 d r) = Inr m \<longrightarrow>
      Object_keys m = set (getChannelNames d) - {''__proto__''} \<and>
      (\<forall>n \<in> set (getChannelNames d). \<exists>xs.
         (if n = ''__proto__'' then prototype m else own m n) = Some xs \<and>
         fst (LdChan_data pow10 (last (filter (\<lambda>ch. name ch = n) (channels d))) r) = Inr xs)"
  proof (intro allI impI)
    fix m
    assume "fst (toDataMap pow10 d r) = Inr m"
    then obtain chs' r' where
      "toDataMap_loop pow10 (channels d) empty_object r = (Inr m, chs', r')"
      by (auto simp: toDataMap_def split: prod.splits)
    note R = toDataMap_loop_result[OF this]
    have e: "dom (slot empty_object) = {}" "own empty_object ''__proto__'' = None"
      by (auto simp: slot_def empty_object_def)
    have d1: "dom (slot m) = set (getChannelNames d)" using R e by (simp add: getChannelNames_def)
    have o: "own m ''__proto__'' = None" using R e by simp
    have "dom (own m) = dom (slot m) - {''__proto__''}"
      using o by (auto simp: slot_def split: if_splits)
    then have k: "Object_keys m = set (getChannelNames d) - {''__proto__''}"
      using d1 by (simp add: Object_keys_def)
    have "\<forall>n \<in> set (getChannelNames d). \<exists>xs.
         (if n = ''__proto__'' then prototype m else own m n) = Some xs \<and>
         fst (LdChan_data pow10 (last (filter (\<lambda>ch. name ch = n) (channels d))) r) = Inr xs"
      using R by (simp add: getChannelNames_def slot_def)
    with k show "Object_keys m = set (getChannelNames d) - {''__proto__''} \<and>
      (\<forall>n \<in> set (getChannelNames d). \<exists>xs.
         (if n = ''__proto__'' then prototype m else own m n) = Some xs \<and>
         fst (LdChan_data pow10 (last (filter (\<lambda>ch. name ch = n) (channels d))) r) = Inr xs)"
      by simp
  qed
  show ?thesis by (rule conjI[OF a conjI[OF b c]])
qed

section \<open>The example files, evaluated\<close>

lemma decodeString_JDoe:
  "decodeString (0x4A # 0x2E # 0x44 # 0x6F # 0x65 # replicate 59 0) = ''J.Doe''"
  by (simp add: decodeString_eq toString_ascii_def trim_def is_space_def char_of_def bit_Suc_0_iff)

lemma decodeString_Speed:
  "decodeString (0x53 # 0x70 # 0x65 # 0x65 # 0x64 # replicate 27 0) = ''Speed''"
  by (simp add: decodeString_eq toString_ascii_def trim_def is_space_def char_of_def bit_Suc_0_iff)

lemma decodeString_Gear:
  "decodeString (0x47 # 0x65 # 0x61 # 0x72 # replicate 28 0) = ''Gear''"
  by (simp add: decodeString_eq toString_ascii_def trim_def is_space_def char_of_def bit_Suc_0_iff)

lemma synthetic_length: "length synthetic_buffer = 1892"
  by (simp add: synthetic_buffer_def)

lemma synthetic_fields_u:
  "field_u 4 synthetic_buffer 8 = 1762"
  "field_u 4 synthetic_buffer 12 = 0"
  "field_u 4 synthetic_buffer 36 = 0"
  "field_u 4 synthetic_buffer 1762 = 0"
  "field_u 4 synthetic_buffer 1766 = 0"
  "field_u 4 synthetic_buffer 1770 = 1886"
  "field_u 4 synthetic_buffer 1774 = 3"
  "field_u 2 synthetic_buffer 1780 = 3"
  "field_u 2 synthetic_buffer 1782 = 2"
  "field_u 2 synthetic_buffer 1784 = 10"
  by (simp_all add: synthetic_buffer_def field_u_def)

lemma synthetic_fields_s:
  "field_s 2 synthetic_buffer 1786 = 0"
  "field_s 2 synthetic_buffer 1788 = 1"
  "field_s 2 synthetic_buffer 1790 = 1"
  "field_s 2 synthetic_buffer 1792 = 1"
  by (simp_all add: synthetic_buffer_def field_u_def field_s_def to_signed_def)

lemma synthetic_texts:
  "field_text 16 synthetic_buffer 94 = []"
  "field_text 16 synthetic_buffer 126 = []"
  "field_text 64 synthetic_buffer 158 = ''J.Doe''"
  "field_text 64 synthetic_buffer 222 = []"
  "field_text 64 synthetic_buffer 350 = []"
  "field_text 64 synthetic_buffer 1572 = []"
  "field_text 32 synthetic_buffer 1794 = ''Speed''"
  "field_text 8 synthetic_buffer 1826 = []"
  "field_text 12 synthetic_buffer 1834 = []"
  "field_text 64 synthetic_buffer 166 = []"
  by (simp_all add: synthetic_buffer_def field_text_def decodeString_JDoe decodeString_Speed)

lemma no_datetime: "parse_datetime [] [] = DateNow"
  by (simp add: parse_datetime_def match_here_def digits_def is_digit_def)

lemma synthetic_reader_position: "synthetic_reader\<lparr>position := 0\<rparr> = synthetic_reader"
  by (simp add: synthetic_reader_def)

lemma sample_reader_position: "sample_reader\<lparr>position := 0\<rparr> = sample_reader"
  by (simp add: sample_reader_def)

lemma synthetic_LdHead:
  "LdHead_fromFile synthetic_reader = (Inr synthetic_head, synthetic_reader\<lparr>position := 1762\<rparr>)"
proof -
  have "40 \<le> length (buffer synthetic_reader)"
    by (simp add: synthetic_reader_def synthetic_length)
  from LdHead_fromFile_ok[OF this] show ?thesis
    by (simp add: synthetic_reader_def synthetic_fields_u synthetic_texts no_datetime
        read_event_if_present_def synthetic_head_def ret_def bnd_def)
qed

lemma synthetic_LdChan:
  "LdChan_fromFile 1762 (synthetic_reader\<lparr>position := p\<rparr>)
     = (Inr synthetic_chan, synthetic_reader\<lparr>position := 1886\<rparr>)"
proof -
  have "1762 + 32 \<le> length (buffer (synthetic_reader\<lparr>position := p\<rparr>))"
    by (simp add: synthetic_reader_def synthetic_length)
  from LdChan_fromFile_ok[OF this] show ?thesis
    by (simp add: synthetic_reader_def synthetic_fields_u synthetic_fields_s synthetic_texts
        determine_dtype_def synthetic_chan_def)
qed

lemma synthetic_readChannels:
  "readChannels 1762 (synthetic_reader\<lparr>position := p\<rparr>)
     = Some (Inr [synthetic_chan], synthetic_reader\<lparr>position := 1886\<rparr>)"
proof -
  have "readChannels_loop [synthetic_chan] 0 (synthetic_reader\<lparr>position := 1886\<rparr>)
          = Some (Inr [synthetic_chan], synthetic_reader\<lparr>position := 1886\<rparr>)"
    by (subst readChannels_loop.simps) simp
  moreover have "nextMetaPtr synthetic_chan = 0" by (simp add: synthetic_chan_def)
  ultimately show ?thesis
    unfolding readChannels_def
    by (subst readChannels_loop.simps) (simp add: synthetic_LdChan)
qed

lemma synthetic_LdData:
  "LdData_fromFile synthetic_buffer
     = Some (Inr \<lparr>head = synthetic_head, channels = [synthetic_chan]\<rparr>,
             synthetic_reader\<lparr>position := 1886\<rparr>)"
proof -
  have "LdHead.metaPtr synthetic_head = 1762" by (simp add: synthetic_head_def)
  then show ?thesis
    using synthetic_LdHead synthetic_readChannels[of 1762]
    by (simp add: LdData_fromFile_def synthetic_reader_def[symmetric])
qed

lemma mystery_LdChan:
  "LdChan_fromFile 0 mystery_reader = (Inr mystery_chan, mystery_reader\<lparr>position := 124\<rparr>)"
proof -
  have "0 + 32 \<le> length (buffer mystery_reader)"
    by (simp add: mystery_reader_def mystery_record_def)
  from LdChan_fromFile_ok[OF this] show ?thesis
    by (simp add: mystery_reader_def mystery_record_def mystery_chan_def determine_dtype_def
        field_u_def field_s_def field_text_def to_signed_def decodeString_Gear)
qed

lemma synthetic_record: "record_at synthetic_buffer 1762 = synthetic_chan"
proof -
  have "first_failing_read (buffer synthetic_reader) 1762 = None"
    by (simp add: first_failing_read_None synthetic_reader_def synthetic_length)
  from LdChan_fromFile_record[OF this] synthetic_LdChan[of 0]
  show ?thesis by (simp add: synthetic_reader_position) (simp add: synthetic_reader_def)
qed

lemma cyclic_never_stops: "chain_walk cyclic_buffer n 1 = None"
proof -
  have "first_failing_read cyclic_buffer 1 = None"
    unfolding first_failing_read_None by (simp add: cyclic_buffer_def)
  then have f: "first_failing_read cyclic_buffer (Suc 0) = None" by simp
  have g: "field_u 4 cyclic_buffer 5 = 1" by (simp add: cyclic_buffer_def field_u_def)
  show ?thesis
  proof (induction n)
    case 0
    show ?case by (simp add: f)
  next
    case (Suc n)
    then show ?case by (simp add: f g)
  qed
qed

lemma truncated_readChannels:
  "readChannels 1 \<lparr>buffer = replicate 20 0, position = 0\<rparr>
     = Some (Inl (OutOfBounds 19), \<lparr>buffer = replicate 20 0, position = 19\<rparr>)"
  unfolding readChannels_def
  by (subst readChannels_loop.simps) (simp add: LdChan_fromFile_def bnd_reads)

lemma tenth: "nearest_pow10 (- 1) = Finite (3602879701896397 / 36028797018963968)"
proof -
  have f: "flog2 (1 / 10) = - 4" by (rule flog2_eqI) (simp_all add: power_int_minus)
  show ?thesis
    by (simp add: nearest_pow10_def round_double_def f round_half_even_def Let_def power_int_minus
        floor_numeral_div)
qed

lemma ten_tenths: "num_mul (Finite 10) (Finite (3602879701896397 / 36028797018963968)) = Finite 1"
proof -
  have f: "flog2 (18014398509481985 / 18014398509481984) = 0" by (rule flog2_eqI) simp_all
  show ?thesis
    by (simp add: round_double_def f round_half_even_def Let_def power_int_minus floor_numeral_div)
qed

lemma twenty_tenths: "num_mul (Finite 20) (Finite (3602879701896397 / 36028797018963968)) = Finite 2"
proof -
  have f: "flog2 (18014398509481985 / 9007199254740992) = 1" by (rule flog2_eqI) simp_all
  show ?thesis
    by (simp add: round_double_def f round_half_even_def Let_def power_int_minus floor_numeral_div)
qed

lemma thirty_tenths: "num_mul (Finite 30) (Finite (3602879701896397 / 36028797018963968)) = Finite 3"
proof -
  have f: "flog2 (54043195528445955 / 18014398509481984) = 1" by (rule flog2_eqI) simp_all
  show ?thesis
    by (simp add: round_double_def f round_half_even_def Let_def power_int_minus floor_numeral_div)
qed

lemma unit_scaling:
  assumes "pow10 (- 1) = Finite (3602879701896397 / 36028797018963968)"
    and "scale ch = 1" "dec ch = 1" "shift ch = 0" "mul ch = 1"
  shows "scaling pow10 ch (Finite 10) = Finite 1"
    and "scaling pow10 ch (Finite 20) = Finite 2"
    and "scaling pow10 ch (Finite 30) = Finite 3"
proof -
  have d: "num_div (Finite 10) (num_of_int 1) = Finite 10"
    "num_div (Finite 20) (num_of_int 1) = Finite 20"
    "num_div (Finite 30) (num_of_int 1) = Finite 30"
    by (simp_all add: num_of_int_def round_double_numeral)
  have m: "num_mul (Finite 10) (pow10 (- 1)) = Finite 1"
    "num_mul (Finite 20) (pow10 (- 1)) = Finite 2"
    "num_mul (Finite 30) (pow10 (- 1)) = Finite 3"
    unfolding assms(1) by (rule ten_tenths twenty_tenths thirty_tenths)+
  have a: "num_add (Finite 1) (num_of_int 0) = Finite 1"
    "num_add (Finite 2) (num_of_int 0) = Finite 2"
    "num_add (Finite 3) (num_of_int 0) = Finite 3"
    by (simp_all add: num_of_int_def round_double_numeral round_double_1)
  have u: "num_mul (Finite 1) (num_of_int 1) = Finite 1"
    "num_mul (Finite 2) (num_of_int 1) = Finite 2"
    "num_mul (Finite 3) (num_of_int 1) = Finite 3"
    by (simp_all add: num_of_int_def round_double_numeral round_double_1)
  show "scaling pow10 ch (Finite 10) = Finite 1"
    unfolding scaling_def assms(2-5) by (simp only: d m a u)
  show "scaling pow10 ch (Finite 20) = Finite 2"
    unfolding scaling_def assms(2-5) by (simp only: d m a u)
  show "scaling pow10 ch (Finite 30) = Finite 3"
    unfolding scaling_def assms(2-5) by (simp only: d m a u)
qed

lemma raw_int16:
  "raw_value_spec int16 [10, 0] = Finite 10"
  "raw_value_spec int16 [20, 0] = Finite 20"
  "raw_value_spec int16 [30, 0] = Finite 30"
  by (simp_all add: raw_value_spec_def)

lemma synthetic_data:
  assumes e: "pow10 (- 1) = Finite (3602879701896397 / 36028797018963968)"
  shows "LdChan_data pow10 synthetic_chan (synthetic_reader\<lparr>position := p\<rparr>) =
     (Inr [Finite 1, Finite 2, Finite 3],
      synthetic_chan\<lparr>cached_data := Some [Finite 1, Finite 2, Finite 3]\<rparr>,
      synthetic_reader\<lparr>position := 1892\<rparr>)"
proof -
  have s: "scale synthetic_chan = 1" "dec synthetic_chan = 1" "shift synthetic_chan = 0"
    "mul synthetic_chan = 1" by (simp_all add: synthetic_chan_def)
  have b: "sample_bytes int16 synthetic_buffer 1886 0 = [10, 0]"
    "sample_bytes int16 synthetic_buffer 1886 (Suc 0) = [20, 0]"
    "sample_bytes int16 synthetic_buffer 1886 2 = [30, 0]"
    by (simp_all add: sample_bytes_def sample_width_def synthetic_buffer_def)
  have "dtype synthetic_chan = Some int16" "cached_data synthetic_chan = None"
    "dataPtr synthetic_chan + dataLen synthetic_chan * sample_width int16
       \<le> length (buffer (synthetic_reader\<lparr>position := p\<rparr>))"
    by (simp_all add: synthetic_chan_def synthetic_reader_def synthetic_length sample_width_def)
  from LdChan_data_first_access[OF this, of pow10] have
    "LdChan_data pow10 synthetic_chan (synthetic_reader\<lparr>position := p\<rparr>) =
     (let d = map (\<lambda>i. scaling pow10 synthetic_chan (raw_value_spec int16
                 (sample_bytes int16 synthetic_buffer 1886 i))) [0..<3]
      in (Inr d, synthetic_chan\<lparr>cached_data := Some d\<rparr>,
          synthetic_reader\<lparr>position := 1892\<rparr>))"
    by (simp add: synthetic_chan_def synthetic_reader_def sample_width_def)
  also have "[0..<3] = [0, 1, 2]" by (simp add: upt_rec)
  finally show ?thesis
    by (simp add: b raw_int16 unit_scaling[of pow10, OF e s] Let_def)
qed

lemma sample_chan_data:
  assumes e: "pow10 (- 1) = Finite (3602879701896397 / 36028797018963968)"
  shows "LdChan_data pow10 (sample_chan n (Some int16) 0) (sample_reader\<lparr>position := p\<rparr>) =
     (Inr [Finite 1, Finite 2, Finite 3],
      sample_chan n (Some int16) 0\<lparr>cached_data := Some [Finite 1, Finite 2, Finite 3]\<rparr>,
      sample_reader\<lparr>position := 6\<rparr>)"
    and "LdChan_data pow10 (sample_chan n (Some int16) 2) (sample_reader\<lparr>position := p\<rparr>) =
     (Inr [Finite 2, Finite 3, Finite 1],
      sample_chan n (Some int16) 2\<lparr>cached_data := Some [Finite 2, Finite 3, Finite 1]\<rparr>,
      sample_reader\<lparr>position := 8\<rparr>)"
proof -
  have s: "scale (sample_chan n t q) = 1" "dec (sample_chan n t q) = 1"
    "shift (sample_chan n t q) = 0" "mul (sample_chan n t q) = 1" for t q
    by (simp_all add: sample_chan_def)
  have b: "sample_bytes int16 sample_data 0 0 = [10, 0]"
    "sample_bytes int16 sample_data 0 (Suc 0) = [20, 0]"
    "sample_bytes int16 sample_data 0 2 = [30, 0]"
    "sample_bytes int16 sample_data 2 0 = [20, 0]"
    "sample_bytes int16 sample_data 2 (Suc 0) = [30, 0]"
    "sample_bytes int16 sample_data 2 2 = [10, 0]"
    by (simp_all add: sample_bytes_def sample_width_def sample_data_def)
  have u: "[0..<3] = [0, 1, 2]" by (simp add: upt_rec)
  have h: "dtype (sample_chan n (Some int16) q) = Some int16"
    "cached_data (sample_chan n (Some int16) q) = None" for q
    by (simp_all add: sample_chan_def)
  have l0: "dataPtr (sample_chan n (Some int16) 0)
              + dataLen (sample_chan n (Some int16) 0) * sample_width int16
            \<le> length (buffer (sample_reader\<lparr>position := p\<rparr>))"
    by (simp add: sample_chan_def sample_reader_def sample_data_def sample_width_def)
  have l2: "dataPtr (sample_chan n (Some int16) 2)
              + dataLen (sample_chan n (Some int16) 2) * sample_width int16
            \<le> length (buffer (sample_reader\<lparr>position := p\<rparr>))"
    by (simp add: sample_chan_def sample_reader_def sample_data_def sample_width_def)
  have f: "dataLen (sample_chan n (Some int16) q) = 3" "dataPtr (sample_chan n (Some int16) q) = q"
    "buffer (sample_reader\<lparr>position := p\<rparr>) = sample_data" for q
    by (simp_all add: sample_chan_def sample_reader_def)
  show "LdChan_data pow10 (sample_chan n (Some int16) 0) (sample_reader\<lparr>position := p\<rparr>) =
     (Inr [Finite 1, Finite 2, Finite 3],
      sample_chan n (Some int16) 0\<lparr>cached_data := Some [Finite 1, Finite 2, Finite 3]\<rparr>,
      sample_reader\<lparr>position := 6\<rparr>)"
    unfolding LdChan_data_first_access[OF h l0, of pow10] f u
    by (simp add: b raw_int16 unit_scaling[of pow10, OF e s] Let_def sample_width_def)
  show "LdChan_data pow10 (sample_chan n (Some int16) 2) (sample_reader\<lparr>position := p\<rparr>) =
     (Inr [Finite 2, Finite 3, Finite 1],
      sample_chan n (Some int16) 2\<lparr>cached_data := Some [Finite 2, Finite 3, Finite 1]\<rparr>,
      sample_reader\<lparr>position := 8\<rparr>)"
    unfolding LdChan_data_first_access[OF h l2, of pow10] f u
    by (simp add: b raw_int16 unit_scaling[of pow10, OF e s] Let_def sample_width_def)
qed

lemma proto_doc_toDataMap:
  "toDataMap nearest_pow10 proto_doc sample_reader =
     (Inr \<lparr>own = [''Speed'' \<mapsto> [Finite 2, Finite 3, Finite 1]],
           prototype = Some [Finite 1, Finite 2, Finite 3]\<rparr>,
      proto_doc\<lparr>channels :=
        [sample_chan ''__proto__'' (Some int16) 0
           \<lparr>cached_data := Some [Finite 1, Finite 2, Finite 3]\<rparr>,
         sample_chan ''Speed'' (Some int16) 2
           \<lparr>cached_data := Some [Finite 2, Finite 3, Finite 1]\<rparr>]\<rparr>,
      sample_reader\<lparr>position := 8\<rparr>)"
proof -
  have d0: "LdChan_data nearest_pow10 (sample_chan ''__proto__'' (Some int16) 0) sample_reader =
     (Inr [Finite 1, Finite 2, Finite 3],
      sample_chan ''__proto__'' (Some int16) 0
        \<lparr>cached_data := Some [Finite 1, Finite 2, Finite 3]\<rparr>,
      sample_reader\<lparr>position := 6\<rparr>)"
    using sample_chan_data(1)[of nearest_pow10, OF tenth, of "''__proto__''" 0]
    by (simp add: sample_reader_position)
  have d2: "LdChan_data nearest_pow10 (sample_chan ''Speed'' (Some int16) 2)
              (sample_reader\<lparr>position := 6\<rparr>) =
     (Inr [Finite 2, Finite 3, Finite 1],
      sample_chan ''Speed'' (Some int16) 2
        \<lparr>cached_data := Some [Finite 2, Finite 3, Finite 1]\<rparr>,
      sample_reader\<lparr>position := 8\<rparr>)"
    by (rule sample_chan_data(2)[of nearest_pow10, OF tenth])
  have n: "name (sample_chan n t q) = n" for n t q by (simp add: sample_chan_def)
  show ?thesis
    by (simp add: toDataMap_def proto_doc_def d0 d2 n assign_def empty_object_def)
qed

lemma scaling_plain:
  assumes "scale ch = 1" "shift ch = 0" "mul ch = 1"
    and "pow10 (- dec ch) = Finite q"
    and "round_double (of_int v * q) = Finite y" "round_double y = Finite y"
    and "\<bar>v\<bar> < 2 ^ 53"
  shows "scaling pow10 ch (Finite (of_int v)) = Finite y"
proof -
  have "num_div (Finite (of_int v)) (num_of_int 1) = Finite (of_int v)"
    using round_double_int[OF assms(7)] by (simp add: num_of_int_def)
  then show ?thesis
    unfolding scaling_def assms(1-4) by (simp add: num_of_int_def assms(5,6))
qed

text \<open>
  The samples follow the engine's power. For a channel with \<^verbatim>\<open>scale = 1\<close>, \<^verbatim>\<open>dec = 4\<close>,
  \<^verbatim>\<open>shift = 0\<close>, \<^verbatim>\<open>mul = 1\<close> and the raw values 1, 12345, 10000: when \<^verbatim>\<open>Math.pow(10, -4)\<close> is
  the binary64 value nearest to \<open>10\<^sup>-\<^sup>4\<close>, the samples print as 0.0001, 1.2345000000000002
  and 1; when it is the next binary64 value below, they print as 0.00009999999999999999,
  1.2345 and 0.9999999999999999.
\<close>

lemma scaling_follows_engine:
  assumes "scale ch = 1" "dec ch = 4" "shift ch = 0" "mul ch = 1"
  shows "pow10 (- 4) = Finite (7378697629483821 / 73786976294838206464) \<Longrightarrow>
           map (scaling pow10 ch) [Finite 1, Finite 12345, Finite 10000]
             = [Finite (7378697629483821 / 73786976294838206464),
                Finite (2779846869994439 / 2251799813685248),
                Finite 1]"
    and "pow10 (- 4) = Finite (1844674407370955 / 18446744073709551616) \<Longrightarrow>
           map (scaling pow10 ch) [Finite 1, Finite 12345, Finite 10000]
             = [Finite (1844674407370955 / 18446744073709551616),
                Finite (5559693739988877 / 4503599627370496),
                Finite (9007199254740991 / 9007199254740992)]"
proof -
  have r: "round_double (7378697629483821 / 73786976294838206464)
             = Finite (7378697629483821 / 73786976294838206464)"
    "round_double (2779846869994439 / 2251799813685248)
             = Finite (2779846869994439 / 2251799813685248)"
    "round_double (1844674407370955 / 18446744073709551616)
             = Finite (1844674407370955 / 18446744073709551616)"
    "round_double (5559693739988877 / 4503599627370496)
             = Finite (5559693739988877 / 4503599627370496)"
    "round_double (9007199254740991 / 9007199254740992)
             = Finite (9007199254740991 / 9007199254740992)"
    by (rule round_double_exact[of _ 7378697629483821 "- 66"], simp_all add: power_int_minus)
       (rule round_double_exact[of _ 2779846869994439 "- 51"], simp_all add: power_int_minus,
        rule round_double_exact[of _ 1844674407370955 "- 64"], simp_all add: power_int_minus,
        rule round_double_exact[of _ 5559693739988877 "- 52"], simp_all add: power_int_minus,
        rule round_double_exact[of _ 9007199254740991 "- 53"], simp_all add: power_int_minus)
  have f: "flog2 (91090022235977770245 / 73786976294838206464) = 0"
    "flog2 (4611686018427388125 / 4611686018427387904) = 0"
    "flog2 (22772505558994439475 / 18446744073709551616) = 0"
    "flog2 (1152921504606846875 / 1152921504606846976) = - 1"
    by (rule flog2_eqI, simp_all add: power_int_minus)+
  have m: "round_double (91090022235977770245 / 73786976294838206464)
             = Finite (2779846869994439 / 2251799813685248)"
    "round_double (4611686018427388125 / 4611686018427387904) = Finite 1"
    "round_double (22772505558994439475 / 18446744073709551616)
             = Finite (5559693739988877 / 4503599627370496)"
    "round_double (1152921504606846875 / 1152921504606846976)
             = Finite (9007199254740991 / 9007199254740992)"
    by (simp_all add: round_double_def f round_half_even_def Let_def power_int_minus
        floor_numeral_div)
  note s = scaling_plain[of ch pow10, OF assms(1,3,4), unfolded assms(2)]
  show "map (scaling pow10 ch) [Finite 1, Finite 12345, Finite 10000]
             = [Finite (7378697629483821 / 73786976294838206464),
                Finite (2779846869994439 / 2251799813685248),
                Finite 1]"
    if e: "pow10 (- 4) = Finite (7378697629483821 / 73786976294838206464)"
  proof -
    have "scaling pow10 ch (Finite 1) = Finite (7378697629483821 / 73786976294838206464)"
      using s[OF e, where v = 1 and y = "7378697629483821 / 73786976294838206464"]
      by (simp add: r)
    moreover have "scaling pow10 ch (Finite 12345) = Finite (2779846869994439 / 2251799813685248)"
      using s[OF e, where v = 12345 and y = "2779846869994439 / 2251799813685248"]
      by (simp add: r m)
    moreover have "scaling pow10 ch (Finite 10000) = Finite 1"
      using s[OF e, where v = 10000 and y = 1]
      by (simp add: m round_double_1)
    ultimately show ?thesis by simp
  qed
  show "map (scaling pow10 ch) [Finite 1, Finite 12345, Finite 10000]
             = [Finite (1844674407370955 / 18446744073709551616),
                Finite (5559693739988877 / 4503599627370496),
                Finite (9007199254740991 / 9007199254740992)]"
    if e: "pow10 (- 4) = Finite (1844674407370955 / 18446744073709551616)"
  proof -
    have "scaling pow10 ch (Finite 1) = Finite (1844674407370955 / 18446744073709551616)"
      using s[OF e, where v = 1 and y = "1844674407370955 / 18446744073709551616"]
      by (simp add: r)
    moreover have "scaling pow10 ch (Finite 12345) = Finite (5559693739988877 / 4503599627370496)"
      using s[OF e, where v = 12345 and y = "5559693739988877 / 4503599627370496"]
      by (simp add: r m)
    moreover have "scaling pow10 ch (Finite 10000) = Finite (9007199254740991 / 9007199254740992)"
      using s[OF e, where v = 10000 and y = "9007199254740991 / 9007199254740992"]
      by (simp add: r m)
    ultimately show ?thesis by simp
  qed
qed

section \<open>The claims\<close>

text \<open>
  Claim C1. The first access to the samples of a channel with a resolved data type, whose
  \<^verbatim>\<open>dataLen\<close> samples lie in the buffer, decodes \<^verbatim>\<open>dataLen\<close> raw values of that data type
  from \<^verbatim>\<open>dataPtr\<close> on (a signed little-endian integer, a single-precision pattern or a
  half-precision pattern each) and maps each raw value \<open>v\<close> to
  \<^verbatim>\<open>(v / scale * 10^(-dec) + shift) * mul\<close>, computed in the arithmetic of numbers with the
  power that the engine returns, whatever the engine. Loading the example file gives the
  driver \<^verbatim>\<open>J.Doe\<close> and one channel of data type int16 with three samples; they are 1, 2, 3
  on every engine whose \<^verbatim>\<open>Math.pow(10, -1)\<close> is the binary64 value nearest to one tenth, the
  number that prints as 0.1.
\<close>

theorem data_decodes_and_scales:
  "(dtype ch = Some t \<and> cached_data ch = None \<and>
    dataPtr ch + dataLen ch * sample_width t \<le> length (buffer r) \<longrightarrow>
      fst (LdChan_data pow10 ch r) =
        Inr (map (\<lambda>i. let v = raw_value_spec t (sample_bytes t (buffer r) (dataPtr ch) i)
                      in num_mul
                           (num_add
                              (num_mul (num_div v (num_of_int (scale ch)))
                                 (pow10 (- dec ch)))
                              (num_of_int (shift ch)))
                           (num_of_int (mul ch)))
               [0..<dataLen ch])) \<and>
   (pow10 (- 1) = Finite (3602879701896397 / 36028797018963968) \<longrightarrow>
      (case LdData_fromFile synthetic_buffer of
         Some (Inr d, r) \<Rightarrow>
           driver (head d) = ''J.Doe'' \<and>
           map dtype (channels d) = [Some int16] \<and>
           map dataLen (channels d) = [3] \<and>
           map (\<lambda>ch. fst (LdChan_data pow10 ch r)) (channels d)
             = [Inr [Finite 1, Finite 2, Finite 3]]
       | _ \<Rightarrow> False))"
proof (intro conjI impI)
  assume "dtype ch = Some t \<and> cached_data ch = None \<and>
    dataPtr ch + dataLen ch * sample_width t \<le> length (buffer r)"
  then have "dtype ch = Some t" "cached_data ch = None"
    "dataPtr ch + dataLen ch * sample_width t \<le> length (buffer r)" by simp_all
  from LdChan_data_first_access[OF this, of pow10]
  show "fst (LdChan_data pow10 ch r) =
        Inr (map (\<lambda>i. let v = raw_value_spec t (sample_bytes t (buffer r) (dataPtr ch) i)
                      in num_mul
                           (num_add
                              (num_mul (num_div v (num_of_int (scale ch)))
                                 (pow10 (- dec ch)))
                              (num_of_int (shift ch)))
                           (num_of_int (mul ch)))
               [0..<dataLen ch])"
    by (simp add: Let_def scaling_def)
next
  assume e: "pow10 (- 1) = Finite (3602879701896397 / 36028797018963968)"
  show "case LdData_fromFile synthetic_buffer of
      Some (Inr d, r) \<Rightarrow>
        driver (head d) = ''J.Doe'' \<and>
        map dtype (channels d) = [Some int16] \<and>
        map dataLen (channels d) = [3] \<and>
        map (\<lambda>ch. fst (LdChan_data pow10 ch r)) (channels d)
          = [Inr [Finite 1, Finite 2, Finite 3]]
    | _ \<Rightarrow> False"
    unfolding synthetic_LdData
    by (simp add: synthetic_data[of pow10, OF e]) (simp add: synthetic_head_def synthetic_chan_def)
qed

text \<open>
  The channel of the example file satisfies the hypotheses of C1, the engine with the
  nearest powers satisfies the hypothesis on \<^verbatim>\<open>Math.pow(10, -1)\<close>, and the samples are
  1, 2, 3.
\<close>

theorem data_decodes_and_scales_witness:
  "dtype synthetic_chan = Some int16 \<and> cached_data synthetic_chan = None \<and>
   dataPtr synthetic_chan + dataLen synthetic_chan * sample_width int16
     \<le> length (buffer synthetic_reader) \<and>
   nearest_pow10 (- 1) = Finite (3602879701896397 / 36028797018963968) \<and>
   fst (LdChan_data nearest_pow10 synthetic_chan synthetic_reader)
     = Inr [Finite 1, Finite 2, Finite 3] \<and>
   (case LdData_fromFile synthetic_buffer of
      Some (Inr d, r) \<Rightarrow>
        driver (head d) = ''J.Doe'' \<and>
        map (\<lambda>ch. fst (LdChan_data nearest_pow10 ch r)) (channels d)
          = [Inr [Finite 1, Finite 2, Finite 3]]
    | _ \<Rightarrow> False)"
proof -
  have h: "dtype synthetic_chan = Some int16 \<and> cached_data synthetic_chan = None \<and>
     dataPtr synthetic_chan + dataLen synthetic_chan * sample_width int16
       \<le> length (buffer synthetic_reader)"
    by (simp add: synthetic_chan_def synthetic_reader_def synthetic_length sample_width_def)
  have s: "scale synthetic_chan = 1" "dec synthetic_chan = 1" "shift synthetic_chan = 0"
    "mul synthetic_chan = 1" by (simp_all add: synthetic_chan_def)
  have b: "sample_bytes int16 (buffer synthetic_reader) (dataPtr synthetic_chan) 0 = [10, 0]"
    "sample_bytes int16 (buffer synthetic_reader) (dataPtr synthetic_chan) (Suc 0) = [20, 0]"
    "sample_bytes int16 (buffer synthetic_reader) (dataPtr synthetic_chan) 2 = [30, 0]"
    by (simp_all add: sample_bytes_def sample_width_def synthetic_buffer_def synthetic_reader_def
        synthetic_chan_def)
  have u: "[0..<dataLen synthetic_chan] = [0, 1, 2]" by (simp add: upt_rec synthetic_chan_def)
  note t = data_decodes_and_scales[of synthetic_chan int16 synthetic_reader nearest_pow10]
  from t h
  have "fst (LdChan_data nearest_pow10 synthetic_chan synthetic_reader) =
        Inr (map (\<lambda>i. scaling nearest_pow10 synthetic_chan
                 (raw_value_spec int16
                    (sample_bytes int16 (buffer synthetic_reader) (dataPtr synthetic_chan) i)))
               [0..<dataLen synthetic_chan])"
    by (simp add: Let_def scaling_def)
  then have d: "fst (LdChan_data nearest_pow10 synthetic_chan synthetic_reader)
      = Inr [Finite 1, Finite 2, Finite 3]"
    unfolding u by (simp add: b raw_int16 unit_scaling[of nearest_pow10, OF tenth s])
  from t tenth have "case LdData_fromFile synthetic_buffer of
      Some (Inr d, r) \<Rightarrow>
        driver (head d) = ''J.Doe'' \<and>
        map (\<lambda>ch. fst (LdChan_data nearest_pow10 ch r)) (channels d)
          = [Inr [Finite 1, Finite 2, Finite 3]]
    | _ \<Rightarrow> False"
    by (auto split: option.splits prod.splits sum.splits)
  with h d tenth show ?thesis by simp
qed

text \<open>
  Claim C2. For every 16-bit pattern, given by its low and its high byte at any position
  of a buffer, the half-precision decoder returns the value that the format prescribes
  for the sign bit, the five exponent bits and the ten fraction bits of the pattern. The
  patterns 3C00, C000, 7C00, FC00, 7E00 and 0000 give 1, -2, plus infinity, minus infinity,
  NaN and 0.
\<close>

theorem readFloat16_decodes:
  "fst (readFloat16 \<lparr>buffer = pre @ [lo, hi] @ post, position = length pre\<rparr>)
     = Inr (half_float_spec (unat lo + 256 * unat hi)) \<and>
   fst (readFloat16 \<lparr>buffer = [0x00, 0x3C], position = 0\<rparr>) = Inr (Finite 1) \<and>
   fst (readFloat16 \<lparr>buffer = [0x00, 0xC0], position = 0\<rparr>) = Inr (Finite (- 2)) \<and>
   fst (readFloat16 \<lparr>buffer = [0x00, 0x7C], position = 0\<rparr>) = Inr PosInf \<and>
   fst (readFloat16 \<lparr>buffer = [0x00, 0xFC], position = 0\<rparr>) = Inr NegInf \<and>
   fst (readFloat16 \<lparr>buffer = [0x00, 0x7E], position = 0\<rparr>) = Inr NaN \<and>
   fst (readFloat16 \<lparr>buffer = [0x00, 0x00], position = 0\<rparr>) = Inr (Finite 0)"
  using readFloat16_bytes[of "[]" "0x00" "0x3C" "[]"] readFloat16_bytes[of "[]" "0x00" "0xC0" "[]"]
    readFloat16_bytes[of "[]" "0x00" "0x7C" "[]"] readFloat16_bytes[of "[]" "0x00" "0xFC" "[]"]
    readFloat16_bytes[of "[]" "0x00" "0x7E" "[]"] readFloat16_bytes[of "[]" "0x00" "0x00" "[]"]
    readFloat16_bytes[of pre lo hi post]
  by (simp add: half_float_examples)

text \<open>
  The pattern C000 at offset 2 of a buffer of five bytes.
\<close>

theorem readFloat16_decodes_witness:
  "fst (readFloat16 \<lparr>buffer = [1, 2] @ [0x00, 0xC0] @ [3], position = length [1, 2 :: byte]\<rparr>)
     = Inr (Finite (- 2))"
  using readFloat16_decodes[of "[1, 2]" "0x00" "0xC0" "[3]"]
  by (simp add: half_float_examples)

text \<open>
  Claim C3 fails as stated: on the record that names itself as its successor, the
  traversal does not return, with a failure or otherwise.
\<close>

theorem readChannels_cycle_counterexample:
  "readChannels 1 \<lparr>buffer = cyclic_buffer, position = 0\<rparr> = None"
proof (cases "readChannels 1 \<lparr>buffer = cyclic_buffer, position = 0\<rparr>")
  case None
  then show ?thesis .
next
  case (Some y)
  then have "readChannels_loop [] 1 \<lparr>buffer = cyclic_buffer, position = 0\<rparr> = Some y"
    by (simp add: readChannels_def)
  from readChannels_loop_returns[OF this] cyclic_never_stops show ?thesis by simp
qed

text \<open>
  Claim C3, amended. The traversal of the chain from \<^verbatim>\<open>metaPtr\<close> returns exactly what the
  chain in the buffer determines after finitely many links: the channels of the records
  from \<^verbatim>\<open>metaPtr\<close> on, in chain order and each with the fields of its record, when the
  chain reaches the pointer 0; the out-of-bounds error at the offset of the first integer
  field outside the buffer, when the chain reaches a record that has one. It does not
  return exactly when neither happens after any number of links. There is no bound on the
  length and no record of the offsets visited.
\<close>

theorem readChannels_walks_chain:
  "(\<forall>res. (\<exists>r'. readChannels p r = Some (res, r')) = (\<exists>n. chain_walk (buffer r) n p = Some res)) \<and>
   ((readChannels p r = None) = (\<forall>n. chain_walk (buffer r) n p = None))"
proof -
  have a: "\<exists>r'. readChannels p r = Some (res, r')" if "chain_walk (buffer r) n p = Some res"
    for n res
    using readChannels_loop_walk[OF that, of "[]"]
    by (simp add: readChannels_def map_sum_append_Nil)
  have b: "\<exists>n. chain_walk (buffer r) n p = Some res" if "readChannels p r = Some (res, r')"
    for res r'
    using readChannels_loop_returns[of "[]" p r "(res, r')"] that
    by (auto simp: readChannels_def map_sum_append_Nil)
  have c: "(readChannels p r = None) = (\<forall>n. chain_walk (buffer r) n p = None)"
  proof
    assume n: "readChannels p r = None"
    show "\<forall>n. chain_walk (buffer r) n p = None"
    proof (rule allI, rule ccontr)
      fix n
      assume "chain_walk (buffer r) n p \<noteq> None"
      then obtain res where "chain_walk (buffer r) n p = Some res" by auto
      from a[OF this] n show False by simp
    qed
  next
    assume w: "\<forall>n. chain_walk (buffer r) n p = None"
    show "readChannels p r = None"
    proof (rule ccontr)
      assume "readChannels p r \<noteq> None"
      then obtain res r' where "readChannels p r = Some (res, r')" by auto
      from b[OF this] w show False by simp
    qed
  qed
  from a b c show ?thesis by blast
qed

text \<open>
  The chain of the example file ends after one link, and the traversal returns the channel
  of its record. On a buffer of twenty bytes the traversal from offset 1 fails with the
  out-of-bounds error at 19, the offset of the class field, the first that does not fit.
\<close>

theorem readChannels_walks_chain_witness:
  "chain_walk (buffer synthetic_reader) 1 1762 = Some (Inr [synthetic_chan]) \<and>
   fst (the (readChannels 1762 synthetic_reader)) = Inr [synthetic_chan] \<and>
   chain_walk (replicate 20 0) 0 1 = Some (Inl (OutOfBounds 19)) \<and>
   fst (the (readChannels 1 \<lparr>buffer = replicate 20 0, position = 0\<rparr>))
     = Inl (OutOfBounds 19)"
proof -
  have "first_failing_read synthetic_buffer 1762 = None"
    by (simp add: first_failing_read_None synthetic_length)
  then have c: "chain_walk (buffer synthetic_reader) 1 1762 = Some (Inr [synthetic_chan])"
    by (simp add: synthetic_reader_def synthetic_fields_u synthetic_record)
  have t: "chain_walk (buffer \<lparr>buffer = replicate 20 0, position = 0\<rparr>) 0 1
             = Some (Inl (OutOfBounds 19))"
    by (simp add: first_failing_read_def record_reads_def)
  from readChannels_walks_chain[of 1762 synthetic_reader] c
  have "\<exists>r'. readChannels 1762 synthetic_reader = Some (Inr [synthetic_chan], r')" by blast
  then have a: "fst (the (readChannels 1762 synthetic_reader)) = Inr [synthetic_chan]" by auto
  from readChannels_walks_chain[of 1 "\<lparr>buffer = replicate 20 0, position = 0\<rparr>"] t
  have "\<exists>r'. readChannels 1 \<lparr>buffer = replicate 20 0, position = 0\<rparr>
               = Some (Inl (OutOfBounds 19), r')" by blast
  then have b: "fst (the (readChannels 1 \<lparr>buffer = replicate 20 0, position = 0\<rparr>))
                  = Inl (OutOfBounds 19)" by auto
  from c a t b show ?thesis by simp
qed

text \<open>
  Claim C4 fails as stated: the header of the example file parses, and its driver is not
  the text of the 64 bytes at offset 166.
\<close>

theorem header_driver_offset_counterexample:
  "\<not> isl (fst (LdHead_fromFile synthetic_reader)) \<and>
   driver (projr (fst (LdHead_fromFile synthetic_reader)))
     \<noteq> field_text 64 (buffer synthetic_reader) 166"
  by (simp add: synthetic_LdHead synthetic_head_def)
     (simp add: synthetic_reader_def synthetic_texts)

text \<open>
  Claim C4, amended. A header that parses has \<^verbatim>\<open>metaPtr\<close>, \<^verbatim>\<open>dataPtr\<close> and \<^verbatim>\<open>eventPtr\<close> from
  the offsets 8, 12 and 36, its date and time from the 16-byte texts at 94 and 126, and
  the 64-byte texts driver, vehicleId, venue and shortComment from 158, 222, 350 and 1572.
  A header of at least 40 bytes without an event parses.
\<close>

theorem header_layout:
  "(LdHead_fromFile r = (Inr h, r') \<longrightarrow>
      LdHead.metaPtr h = field_u 4 (buffer r) 8 \<and>
      LdHead.dataPtr h = field_u 4 (buffer r) 12 \<and>
      eventPtr h = field_u 4 (buffer r) 36 \<and>
      datetime h = parse_datetime (field_text 16 (buffer r) 94) (field_text 16 (buffer r) 126) \<and>
      driver h = field_text 64 (buffer r) 158 \<and>
      vehicleId h = field_text 64 (buffer r) 222 \<and>
      LdHead.venue h = field_text 64 (buffer r) 350 \<and>
      shortComment h = field_text 64 (buffer r) 1572) \<and>
   (40 \<le> length (buffer r) \<and> field_u 4 (buffer r) 36 = 0 \<longrightarrow> \<not> isl (fst (LdHead_fromFile r)))"
proof (intro conjI impI)
  assume a: "LdHead_fromFile r = (Inr h, r')"
  have l: "40 \<le> length (buffer r)"
  proof (rule ccontr)
    assume "\<not> 40 \<le> length (buffer r)"
    then have "length (buffer r) < 40" by simp
    from LdHead_fromFile_fail[OF this] a show False by auto
  qed
  from bnd_result[OF a[unfolded LdHead_fromFile_ok[OF l]]]
  obtain ev where h: "h = \<lparr>LdHead.metaPtr = field_u 4 (buffer r) 8,
            LdHead.dataPtr = field_u 4 (buffer r) 12,
            eventPtr = field_u 4 (buffer r) 36,
            event = ev,
            driver = field_text 64 (buffer r) 158,
            vehicleId = field_text 64 (buffer r) 222,
            venue = field_text 64 (buffer r) 350,
            datetime = parse_datetime (field_text 16 (buffer r) 94) (field_text 16 (buffer r) 126),
            shortComment = field_text 64 (buffer r) 1572\<rparr>" ..
  show "LdHead.metaPtr h = field_u 4 (buffer r) 8" by (simp add: h)
  show "LdHead.dataPtr h = field_u 4 (buffer r) 12" by (simp add: h)
  show "eventPtr h = field_u 4 (buffer r) 36" by (simp add: h)
  show "datetime h = parse_datetime (field_text 16 (buffer r) 94) (field_text 16 (buffer r) 126)"
    by (simp add: h)
  show "driver h = field_text 64 (buffer r) 158" by (simp add: h)
  show "vehicleId h = field_text 64 (buffer r) 222" by (simp add: h)
  show "LdHead.venue h = field_text 64 (buffer r) 350" by (simp add: h)
  show "shortComment h = field_text 64 (buffer r) 1572" by (simp add: h)
next
  assume "40 \<le> length (buffer r) \<and> field_u 4 (buffer r) 36 = 0"
  then show "\<not> isl (fst (LdHead_fromFile r))"
    by (simp add: LdHead_fromFile_ok read_event_if_present_def ret_def bnd_def)
qed

text \<open>
  The header of the example file.
\<close>

theorem header_layout_witness:
  "LdHead_fromFile synthetic_reader = (Inr synthetic_head, synthetic_reader\<lparr>position := 1762\<rparr>) \<and>
   LdHead.metaPtr synthetic_head = field_u 4 (buffer synthetic_reader) 8 \<and>
   driver synthetic_head = field_text 64 (buffer synthetic_reader) 158 \<and>
   driver synthetic_head = ''J.Doe'' \<and>
   40 \<le> length (buffer synthetic_reader) \<and> field_u 4 (buffer synthetic_reader) 36 = 0 \<and>
   \<not> isl (fst (LdHead_fromFile synthetic_reader))"
  using header_layout[of synthetic_reader synthetic_head "synthetic_reader\<lparr>position := 1762\<rparr>"]
    synthetic_LdHead
  by (simp add: synthetic_head_def) (simp add: synthetic_reader_def synthetic_length synthetic_fields_u)

text \<open>
  Claim C5 fails as stated: reading 4 bytes from a buffer of 2 bytes does not fail.
\<close>

theorem readBytes_counterexample:
  "\<not> (isl (fst (readBytes 4 \<lparr>buffer = [1, 2], position = 0\<rparr>))
        = (length (buffer \<lparr>buffer = [1, 2], position = 0\<rparr>)
             < position \<lparr>buffer = [1, 2], position = 0\<rparr> + 4))"
  by (simp add: readBytes_def)

text \<open>
  Claim C5, amended. Each of the four integer reads fails, with the out-of-bounds error at
  the position, exactly when the bytes from the position to the position plus the width
  do not all lie in the buffer. \<^verbatim>\<open>readBytes\<close> never fails: it returns the bytes of that
  range that the buffer has, which may be fewer than asked for, and moves the position by
  the number asked for.
\<close>

theorem reads_bounds:
  "(isl (fst (readUInt16LE r)) = (length (buffer r) < position r + 2)) \<and>
   (isl (fst (readInt16LE r)) = (length (buffer r) < position r + 2)) \<and>
   (isl (fst (readUInt32LE r)) = (length (buffer r) < position r + 4)) \<and>
   (isl (fst (readInt32LE r)) = (length (buffer r) < position r + 4)) \<and>
   (length (buffer r) < position r + 2 \<longrightarrow>
      fst (readUInt16LE r) = Inl (OutOfBounds (position r)) \<and>
      fst (readInt16LE r) = Inl (OutOfBounds (position r))) \<and>
   (length (buffer r) < position r + 4 \<longrightarrow>
      fst (readUInt32LE r) = Inl (OutOfBounds (position r)) \<and>
      fst (readInt32LE r) = Inl (OutOfBounds (position r))) \<and>
   readBytes n r =
     (Inr (take n (drop (position r) (buffer r))), r\<lparr>position := position r + n\<rparr>) \<and>
   length (take n (drop (position r) (buffer r))) = min n (length (buffer r) - position r)"
  by (simp add: readUInt16LE_eq readInt16LE_eq readUInt32LE_eq readInt32LE_eq readBytes_eq)

text \<open>
  A buffer of two bytes. At position 0 the 32-bit reads fail, the 16-bit read does not,
  and \<^verbatim>\<open>readBytes\<close> of 4 returns the two bytes; at position 1 the 16-bit reads fail too,
  and \<^verbatim>\<open>readBytes\<close> of 4 returns one byte.
\<close>

theorem reads_bounds_witness:
  "isl (fst (readUInt32LE \<lparr>buffer = [1, 2], position = 0\<rparr>)) \<and>
   fst (readInt32LE \<lparr>buffer = [1, 2], position = 0\<rparr>) = Inl (OutOfBounds 0) \<and>
   \<not> isl (fst (readUInt16LE \<lparr>buffer = [1, 2], position = 0\<rparr>)) \<and>
   fst (readBytes 4 \<lparr>buffer = [1, 2], position = 0\<rparr>) = Inr [1, 2] \<and>
   fst (readUInt16LE \<lparr>buffer = [1, 2], position = 1\<rparr>) = Inl (OutOfBounds 1) \<and>
   fst (readInt16LE \<lparr>buffer = [1, 2], position = 1\<rparr>) = Inl (OutOfBounds 1) \<and>
   fst (readBytes 4 \<lparr>buffer = [1, 2], position = 1\<rparr>) = Inr [2]"
  using reads_bounds[of "\<lparr>buffer = [1, 2], position = 0\<rparr>" 4]
    reads_bounds[of "\<lparr>buffer = [1, 2], position = 1\<rparr>" 4]
  by simp

text \<open>
  Claim C6. The data type of a parsed channel record is the entry of the table for the
  class at offset 18 and the width at offset 20 of the record, and unknown when the table
  has none.
\<close>

theorem dtype_resolution:
  assumes "LdChan_fromFile p r = (Inr ch, r')"
  shows "dtype ch =
           resolved_dtype_spec (field_u 2 (buffer r) (p + 18)) (field_u 2 (buffer r) (p + 20))"
proof (cases "p + 32 \<le> length (buffer r)")
  case True
  show ?thesis using assms unfolding LdChan_fromFile_ok[OF True] determine_dtype_eq_spec by auto
next
  case False
  then have "length (buffer r) < p + 32" by simp
  from LdChan_fromFile_fail[OF this] assms show ?thesis by auto
qed

text \<open>
  The channel of the example file has class 3 and width 2, which is int16.
\<close>

theorem dtype_resolution_witness:
  "LdChan_fromFile 1762 synthetic_reader
     = (Inr synthetic_chan, synthetic_reader\<lparr>position := 1886\<rparr>) \<and>
   dtype synthetic_chan = resolved_dtype_spec 3 2 \<and>
   dtype synthetic_chan = Some int16"
proof -
  have p: "LdChan_fromFile 1762 synthetic_reader
     = (Inr synthetic_chan, synthetic_reader\<lparr>position := 1886\<rparr>)"
    using synthetic_LdChan[of 0] by (simp add: synthetic_reader_position)
  from dtype_resolution[OF p] p show ?thesis
    by (simp add: synthetic_reader_def synthetic_fields_u) (simp add: synthetic_chan_def)
qed

text \<open>
  Claim C7. \<^verbatim>\<open>getChannel\<close> of an index fails with the index out of range exactly when
  the index is not in \<open>[0, channelCount)\<close>, and returns the channel at the index otherwise.
  \<^verbatim>\<open>getChannel\<close> of a name fails with channel not found when no channel has the name, and
  with the ambiguous name when two channels have it, while \<^verbatim>\<open>getChannel\<close> of the index of
  either returns that channel.
\<close>

theorem getChannel_lookup:
  "((getChannel d (Index i) = Inl (IndexOutOfRange i)) = (\<not> (0 \<le> i \<and> i < int (channelCount d)))) \<and>
   (0 \<le> i \<and> i < int (channelCount d) \<longrightarrow> getChannel d (Index i) = Inr (channels d ! nat i)) \<and>
   ((\<forall>ch \<in> set (channels d). name ch \<noteq> n) \<longrightarrow> getChannel d (Name n) = Inl (ChannelNotFound n)) \<and>
   (j < k \<and> k < channelCount d \<and> name (channels d ! j) = n \<and> name (channels d ! k) = n \<longrightarrow>
      getChannel d (Name n) = Inl (AmbiguousChannelName n) \<and>
      getChannel d (Index (int j)) = Inr (channels d ! j) \<and>
      getChannel d (Index (int k)) = Inr (channels d ! k))"
proof (intro conjI impI)
  show "(getChannel d (Index i) = Inl (IndexOutOfRange i)) = (\<not> (0 \<le> i \<and> i < int (channelCount d)))"
    by (auto simp: channelCount_def)
  show "getChannel d (Index i) = Inr (channels d ! nat i)" if "0 \<le> i \<and> i < int (channelCount d)"
    using that by (auto simp: channelCount_def)
  show "getChannel d (Name n) = Inl (ChannelNotFound n)" if "\<forall>ch \<in> set (channels d). name ch \<noteq> n"
    using that by (simp add: filter_empty_conv)
next
  assume a: "j < k \<and> k < channelCount d \<and> name (channels d ! j) = n \<and> name (channels d ! k) = n"
  then have "1 < length (filter (\<lambda>ch. name ch = n) (channels d))"
    by (intro two_matches[of j k]) (simp_all add: channelCount_def)
  then show "getChannel d (Name n) = Inl (AmbiguousChannelName n)"
    by (auto simp: Let_def)
  show "getChannel d (Index (int j)) = Inr (channels d ! j)"
    using a by (simp add: channelCount_def)
  show "getChannel d (Index (int k)) = Inr (channels d ! k)"
    using a by (simp add: channelCount_def)
qed

text \<open>
  The document with two channels named \<^verbatim>\<open>Speed\<close>.
\<close>

theorem getChannel_lookup_witness:
  "getChannel duplicate_doc (Index 5) = Inl (IndexOutOfRange 5) \<and>
   getChannel duplicate_doc (Index (- 1)) = Inl (IndexOutOfRange (- 1)) \<and>
   getChannel duplicate_doc (Name ''RPM'') = Inl (ChannelNotFound ''RPM'') \<and>
   getChannel duplicate_doc (Name ''Speed'') = Inl (AmbiguousChannelName ''Speed'') \<and>
   getChannel duplicate_doc (Index 0) = Inr (sample_chan ''Speed'' (Some int16) 0) \<and>
   getChannel duplicate_doc (Index 1) = Inr (sample_chan ''Speed'' (Some int16) 2)"
  using getChannel_lookup[of duplicate_doc 5 "''RPM''" 0 1]
    getChannel_lookup[of duplicate_doc "- 1" "''Speed''" 0 1]
    getChannel_lookup[of duplicate_doc 1 "''Speed''" 0 1]
  by (simp add: duplicate_doc_def channelCount_def sample_chan_def)

text \<open>
  Claim C8. Parsing a channel record fails only when its integer fields do not lie in the
  buffer, whatever the class and the width: a record with a combination that the table
  does not have parses to a channel of unknown data type. Accessing the samples of such a
  channel fails with the unknown data type error that names the channel, and changes
  neither the channel nor the reader, so that any other channel is accessed afterwards as
  it would have been before.
\<close>

theorem unknown_dtype_fails_on_access_only:
  "(isl (fst (LdChan_fromFile p r)) = (length (buffer r) < p + 32)) \<and>
   (p + 32 \<le> length (buffer r) \<and>
    resolved_dtype_spec (field_u 2 (buffer r) (p + 18)) (field_u 2 (buffer r) (p + 20)) = None \<longrightarrow>
      (\<exists>ch. LdChan_fromFile p r = (Inr ch, r\<lparr>position := p + 124\<rparr>) \<and> dtype ch = None)) \<and>
   (dtype ch = None \<longrightarrow>
      LdChan_data pow10 ch r2 = (Inl (UnknownDataType (name ch)), ch, r2) \<and>
      (\<forall>other. LdChan_data pow10 other (snd (snd (LdChan_data pow10 ch r2)))
                 = LdChan_data pow10 other r2))"
proof (intro conjI impI)
  show "isl (fst (LdChan_fromFile p r)) = (length (buffer r) < p + 32)"
  proof (cases "p + 32 \<le> length (buffer r)")
    case True
    then show ?thesis by (simp add: LdChan_fromFile_ok)
  next
    case False
    then have "length (buffer r) < p + 32" by simp
    from LdChan_fromFile_fail[OF this] this show ?thesis by auto
  qed
next
  assume a: "p + 32 \<le> length (buffer r) \<and>
    resolved_dtype_spec (field_u 2 (buffer r) (p + 18)) (field_u 2 (buffer r) (p + 20)) = None"
  then show "\<exists>ch. LdChan_fromFile p r = (Inr ch, r\<lparr>position := p + 124\<rparr>) \<and> dtype ch = None"
    by (simp add: LdChan_fromFile_ok determine_dtype_eq_spec)
next
  assume "dtype ch = None"
  then show "LdChan_data pow10 ch r2 = (Inl (UnknownDataType (name ch)), ch, r2)"
    by (simp add: LdChan_data_def)
  then show "\<forall>other. LdChan_data pow10 other (snd (snd (LdChan_data pow10 ch r2)))
                 = LdChan_data pow10 other r2"
    by simp
qed

text \<open>
  The record of class 9 parses to the channel \<^verbatim>\<open>Gear\<close>; its samples cannot be accessed,
  and those of another channel can afterwards.
\<close>

theorem unknown_dtype_fails_on_access_only_witness:
  "0 + 32 \<le> length (buffer mystery_reader) \<and>
   resolved_dtype_spec (field_u 2 (buffer mystery_reader) (0 + 18))
     (field_u 2 (buffer mystery_reader) (0 + 20)) = None \<and>
   LdChan_fromFile 0 mystery_reader = (Inr mystery_chan, mystery_reader\<lparr>position := 124\<rparr>) \<and>
   dtype mystery_chan = None \<and>
   LdChan_data nearest_pow10 mystery_chan sample_reader
     = (Inl (UnknownDataType ''Gear''), mystery_chan, sample_reader) \<and>
   fst (LdChan_data nearest_pow10 (sample_chan ''Speed'' (Some int16) 0)
          (snd (snd (LdChan_data nearest_pow10 mystery_chan sample_reader))))
     = Inr [Finite 1, Finite 2, Finite 3]"
proof -
  have a: "0 + 32 \<le> length (buffer mystery_reader)"
    by (simp add: mystery_reader_def mystery_record_def)
  have b: "resolved_dtype_spec (field_u 2 (buffer mystery_reader) (0 + 18))
     (field_u 2 (buffer mystery_reader) (0 + 20)) = None"
    by (simp add: mystery_reader_def mystery_record_def field_u_def resolved_dtype_spec_def
        dtype_table_def)
  have c: "dtype mystery_chan = None" "name mystery_chan = ''Gear''"
    by (simp_all add: mystery_chan_def)
  have d: "fst (LdChan_data nearest_pow10 (sample_chan ''Speed'' (Some int16) 0) sample_reader)
     = Inr [Finite 1, Finite 2, Finite 3]"
    using sample_chan_data(1)[of nearest_pow10, OF tenth, of "''Speed''" 0]
    by (simp add: sample_reader_position)
  from unknown_dtype_fails_on_access_only[where p = 0 and r = mystery_reader
      and ch = mystery_chan and ?pow10.0 = nearest_pow10 and ?r2.0 = sample_reader]
    a b c d mystery_LdChan
  show ?thesis by simp
qed

text \<open>
  Claim C9. When the access to the samples of a channel returns them, they are stored on
  the channel, and every later access returns the same samples on any reader, whatever its
  buffer and position and whatever the engine's power, and leaves the reader and the
  channel as they are.
\<close>

theorem data_memoized:
  assumes "LdChan_data pow10 ch r = (Inr xs, ch', r')"
  shows "ch' = ch\<lparr>cached_data := Some xs\<rparr> \<and>
         (\<forall>pow r2. LdChan_data pow ch' r2 = (Inr xs, ch', r2))"
  using assms
  by (auto simp: LdChan_data_def Let_def split: option.splits prod.splits sum.splits)

text \<open>
  The second access returns the samples 1, 2, 3 even on an empty buffer.
\<close>

theorem data_memoized_witness:
  "LdChan_data nearest_pow10 (sample_chan ''Speed'' (Some int16) 0) sample_reader =
     (Inr [Finite 1, Finite 2, Finite 3],
      sample_chan ''Speed'' (Some int16) 0\<lparr>cached_data := Some [Finite 1, Finite 2, Finite 3]\<rparr>,
      sample_reader\<lparr>position := 6\<rparr>) \<and>
   LdChan_data nearest_pow10
     (sample_chan ''Speed'' (Some int16) 0\<lparr>cached_data := Some [Finite 1, Finite 2, Finite 3]\<rparr>)
     \<lparr>buffer = [], position = 0\<rparr> =
     (Inr [Finite 1, Finite 2, Finite 3],
      sample_chan ''Speed'' (Some int16) 0\<lparr>cached_data := Some [Finite 1, Finite 2, Finite 3]\<rparr>,
      \<lparr>buffer = [], position = 0\<rparr>)"
proof -
  have f: "LdChan_data nearest_pow10 (sample_chan ''Speed'' (Some int16) 0) sample_reader =
     (Inr [Finite 1, Finite 2, Finite 3],
      sample_chan ''Speed'' (Some int16) 0\<lparr>cached_data := Some [Finite 1, Finite 2, Finite 3]\<rparr>,
      sample_reader\<lparr>position := 6\<rparr>)"
    using sample_chan_data(1)[of nearest_pow10, OF tenth, of "''Speed''" 0]
    by (simp add: sample_reader_position)
  from data_memoized[OF f] f show ?thesis by blast
qed

text \<open>
  Claim C10, that the keys of the object that \<^verbatim>\<open>toDataMap\<close> returns are the names of the
  channels, evaluated on the document with the channels \<^verbatim>\<open>__proto__\<close> and \<^verbatim>\<open>Speed\<close>:
  \<^verbatim>\<open>toDataMap\<close> returns an object whose only key is \<^verbatim>\<open>Speed\<close>. The samples of the channel
  \<^verbatim>\<open>__proto__\<close> are not under any key; they have become the prototype of the object.
\<close>

theorem toDataMap_drops_proto_channel:
  "getChannelNames proto_doc = [''__proto__'', ''Speed''] \<and>
   \<not> isl (fst (toDataMap nearest_pow10 proto_doc sample_reader)) \<and>
   Object_keys (projr (fst (toDataMap nearest_pow10 proto_doc sample_reader))) = {''Speed''} \<and>
   Object_keys (projr (fst (toDataMap nearest_pow10 proto_doc sample_reader)))
     \<noteq> set (getChannelNames proto_doc) \<and>
   own (projr (fst (toDataMap nearest_pow10 proto_doc sample_reader))) ''__proto__'' = None \<and>
   prototype (projr (fst (toDataMap nearest_pow10 proto_doc sample_reader)))
     = Some [Finite 1, Finite 2, Finite 3]"
proof -
  have n: "name (sample_chan n t q) = n" for n t q by (simp add: sample_chan_def)
  have g: "getChannelNames proto_doc = [''__proto__'', ''Speed'']"
    by (simp add: getChannelNames_def proto_doc_def n)
  show ?thesis unfolding proto_doc_toDataMap g by (simp add: Object_keys_def)
qed

end
